theory Spec2Isabelle
  imports Complex_Main "HOL-Library.Word" "HOL-Library.Log_Nat"
begin

section \<open>JavaScript numbers and values\<close>

text \<open>
  A JavaScript \<^verbatim>\<open>number\<close> is an IEEE 754 double. A finite one is modelled as the
  rational it stands for, and the three non-finite doubles are constructors of their
  own, so that a division by zero is what JavaScript makes of it (an infinity or NaN)
  and not HOL's \<open>x / 0 = 0\<close>. The sign of zero is not modelled.

  An arithmetic operation of JavaScript is the exact operation followed by the rounding
  \<open>rnd\<close> to the nearest double, which is defined below. The exact operations
  \<open>js_add\<close>, \<open>js_sub\<close>, \<open>js_mul\<close> and \<open>js_div\<close> come first. Where the source
  computes a resolution or looks a tile up (\<^verbatim>\<open>get resolution\<close>,
  \<^verbatim>\<open>getImageByResolution\<close>, \<^verbatim>\<open>getTile\<close>, \<^verbatim>\<open>hasTile\<close>), every operation is written with
  its rounding. The accessors of the sizes (\<^verbatim>\<open>tileCount\<close>, \<^verbatim>\<open>getTileBounds\<close>) and the
  positions and lengths of bytes are written with the exact operations: their operands
  are integer fields of the file, on which the exact results are the doubles (for the
  tile counts: lemma \<open>quotient_ceiling\<close>).
\<close>

datatype number = Fin rat | PosInf | NegInf | NaN

fun signum :: "number \<Rightarrow> rat" where
  "signum (Fin a) = sgn a"
| "signum PosInf = 1"
| "signum NegInf = - 1"
| "signum NaN = 0"

definition signed_inf :: "rat \<Rightarrow> number" where
  "signed_inf s = (if 0 < s then PosInf else if s < 0 then NegInf else NaN)"

fun js_neg :: "number \<Rightarrow> number" where
  "js_neg (Fin a) = Fin (- a)"
| "js_neg PosInf = NegInf"
| "js_neg NegInf = PosInf"
| "js_neg NaN = NaN"

fun js_add :: "number \<Rightarrow> number \<Rightarrow> number" where
  "js_add (Fin a) (Fin b) = Fin (a + b)"
| "js_add NaN b = NaN"
| "js_add a NaN = NaN"
| "js_add PosInf NegInf = NaN"
| "js_add NegInf PosInf = NaN"
| "js_add PosInf b = PosInf"
| "js_add NegInf b = NegInf"
| "js_add (Fin a) b = b"

definition js_sub :: "number \<Rightarrow> number \<Rightarrow> number" where
  "js_sub a b = js_add a (js_neg b)"

fun js_mul :: "number \<Rightarrow> number \<Rightarrow> number" where
  "js_mul (Fin a) (Fin b) = Fin (a * b)"
| "js_mul NaN b = NaN"
| "js_mul a NaN = NaN"
| "js_mul a b = signed_inf (signum a * signum b)"

fun js_div :: "number \<Rightarrow> number \<Rightarrow> number" where
  "js_div (Fin a) (Fin b) = (if b = 0 then signed_inf (sgn a) else Fin (a / b))"
| "js_div NaN b = NaN"
| "js_div a NaN = NaN"
| "js_div (Fin a) b = Fin 0"
| "js_div a (Fin b) = signed_inf (signum a * (if b < 0 then - 1 else 1))"
| "js_div a b = NaN"

text \<open>
  The rounding to the nearest double, ties to even. For a rational \<open>a > 0\<close>,
  \<open>ilog2 a\<close> is the exponent \<open>e\<close> with \<open>2 powi e \<le> a < 2 powi (e + 1)\<close>. A double
  of that exponent is a multiple of \<open>2 powi (e - 52)\<close>, and of \<open>2 powi (- 1074)\<close> at
  least (the subnormal numbers); a number that rounds to \<open>2 powi 1024\<close> or more is an
  infinity. A literal of the source is the double nearest to it: \<^verbatim>\<open>0.01\<close> is
  \<open>dbl (1 / 100)\<close>.
\<close>

definition ilog2 :: "rat \<Rightarrow> int" where
  "ilog2 a =
     (case quotient_of a of
        (n, d) \<Rightarrow> (let k = bitlen n - bitlen d in if 2 powi k \<le> a then k else k - 1))"

definition round_even :: "rat \<Rightarrow> int" where
  "round_even x =
     (let f = \<lfloor>x\<rfloor>; d = x - of_int f
      in if d < 1 / 2 then f else if 1 / 2 < d then f + 1 else if even f then f else f + 1)"

definition dbl :: "rat \<Rightarrow> number" where
  "dbl q =
     (if q = 0 then Fin 0
      else
        (let a = \<bar>q\<bar>; e = max (ilog2 a) (- 1022); u = 2 powi (e - 52);
             m = of_int (round_even (a / u)) * u
         in if 2 powi 1024 \<le> m then signed_inf (sgn q) else Fin (sgn q * m)))"

fun rnd :: "number \<Rightarrow> number" where
  "rnd (Fin q) = dbl q"
| "rnd n = n"

text \<open>\<^verbatim>\<open>Math.ceil\<close>.\<close>

fun js_ceil :: "number \<Rightarrow> number" where
  "js_ceil (Fin a) = Fin (of_int \<lceil>a\<rceil>)"
| "js_ceil a = a"

text \<open>The comparisons \<^verbatim>\<open><\<close>, \<^verbatim>\<open>>\<close>, \<^verbatim>\<open><=\<close>, \<^verbatim>\<open>>=\<close> and \<^verbatim>\<open>===\<close>: every
  comparison with NaN is false.\<close>

fun js_lt :: "number \<Rightarrow> number \<Rightarrow> bool" where
  "js_lt (Fin a) (Fin b) = (a < b)"
| "js_lt NaN b = False"
| "js_lt a NaN = False"
| "js_lt PosInf b = False"
| "js_lt a NegInf = False"
| "js_lt a b = True"

definition js_gt :: "number \<Rightarrow> number \<Rightarrow> bool" where
  "js_gt a b = js_lt b a"

fun js_le :: "number \<Rightarrow> number \<Rightarrow> bool" where
  "js_le (Fin a) (Fin b) = (a \<le> b)"
| "js_le NaN b = False"
| "js_le a NaN = False"
| "js_le NegInf b = True"
| "js_le a PosInf = True"
| "js_le a b = False"

definition js_ge :: "number \<Rightarrow> number \<Rightarrow> bool" where
  "js_ge a b = js_le b a"

definition js_eq :: "number \<Rightarrow> number \<Rightarrow> bool" where
  "js_eq a b = (a \<noteq> NaN \<and> a = b)"

text \<open>
  The values the reader handles: \<^verbatim>\<open>undefined\<close>, \<^verbatim>\<open>null\<close>, a number, an array of
  numbers (a typed array or \<^verbatim>\<open>number[]\<close>) and a string.
\<close>

datatype jsval = Undefined | Null | Num number | Arr "number list" | Str string

text \<open>
  \<^verbatim>\<open>ToNumber\<close>, the coercion of an arithmetic operand. It is JavaScript's for
  \<^verbatim>\<open>undefined\<close>, \<^verbatim>\<open>null\<close> and numbers, the values a tag read at the type
  \<^verbatim>\<open>number\<close> has (\<^verbatim>\<open>null\<close> when the tag is absent). An array or a string in the place
  of a number is outside the types the source declares; JavaScript would go through its
  string conversion there, and the model takes NaN.
\<close>

fun ToNumber :: "jsval \<Rightarrow> number" where
  "ToNumber Undefined = NaN"
| "ToNumber Null = Fin 0"
| "ToNumber (Num n) = n"
| "ToNumber (Arr xs) = NaN"
| "ToNumber (Str s) = NaN"

text \<open>\<^verbatim>\<open>v == null\<close> (both \<^verbatim>\<open>null\<close> and \<^verbatim>\<open>undefined\<close>), \<^verbatim>\<open>v === n\<close> for a number
  \<^verbatim>\<open>n\<close>, and the truthiness of \<^verbatim>\<open>if (v)\<close>.\<close>

definition nullish :: "jsval \<Rightarrow> bool" where
  "nullish v = (v = Undefined \<or> v = Null)"

fun strict_eq_num :: "jsval \<Rightarrow> number \<Rightarrow> bool" where
  "strict_eq_num (Num m) n = js_eq m n"
| "strict_eq_num v n = False"

fun truthy :: "jsval \<Rightarrow> bool" where
  "truthy Undefined = False"
| "truthy Null = False"
| "truthy (Num n) = (n \<noteq> NaN \<and> n \<noteq> Fin 0)"
| "truthy (Arr xs) = True"
| "truthy (Str s) = (s \<noteq> [])"

text \<open>
  An index or a slice bound as JavaScript reads it (\<^verbatim>\<open>ToIntegerOrInfinity\<close>, then made
  relative to the length): NaN is 0, a fraction is truncated towards zero, a negative
  bound counts from the end, and the result is clamped to \<open>0 .. len\<close>.
\<close>

definition trunc :: "rat \<Rightarrow> int" where
  "trunc a = (if 0 \<le> a then \<lfloor>a\<rfloor> else \<lceil>a\<rceil>)"

fun rel_index :: "nat \<Rightarrow> number \<Rightarrow> nat" where
  "rel_index len (Fin a) =
     (if trunc a < 0 then nat (max (int len + trunc a) 0) else nat (min (trunc a) (int len)))"
| "rel_index len PosInf = len"
| "rel_index len NegInf = 0"
| "rel_index len NaN = 0"

text \<open>\<^verbatim>\<open>xs.slice(start, end)\<close> of an array or a string.\<close>

definition js_slice :: "'a list \<Rightarrow> number \<Rightarrow> number \<Rightarrow> 'a list" where
  "js_slice xs start end =
     (let from = rel_index (length xs) start; to = rel_index (length xs) end
      in take (to - from) (drop from xs))"

text \<open>\<^verbatim>\<open>xs[i]\<close> of a list: the element when \<^verbatim>\<open>i\<close> is an integer inside the list,
  \<^verbatim>\<open>undefined\<close> otherwise (JavaScript does not raise).\<close>

fun js_nth :: "'a list \<Rightarrow> number \<Rightarrow> 'a option" where
  "js_nth xs (Fin a) =
     (if a = of_int \<lfloor>a\<rfloor> \<and> 0 \<le> a \<and> nat \<lfloor>a\<rfloor> < length xs then Some (xs ! nat \<lfloor>a\<rfloor>) else None)"
| "js_nth xs n = None"

text \<open>\<^verbatim>\<open>v[i]\<close> of a value: an array element, a one-character string, or \<^verbatim>\<open>undefined\<close>.\<close>

fun js_get :: "jsval \<Rightarrow> number \<Rightarrow> jsval" where
  "js_get (Arr xs) i = (case js_nth xs i of None \<Rightarrow> Undefined | Some n \<Rightarrow> Num n)"
| "js_get (Str s) i = (case js_nth s i of None \<Rightarrow> Undefined | Some c \<Rightarrow> Str [c])"
| "js_get v i = Undefined"

section \<open>Tags, images and the reader\<close>

text \<open>
  Modelled from the spec: the enum \<^verbatim>\<open>TiffTag\<close> (\<^verbatim>\<open>const/tiff.tag.id.ts\<close>) and the geo key
  \<^verbatim>\<open>TiffTagGeo.GTCitationGeoKey\<close> are not among the sources. A tag's key in an image's
  tag map is the id read from its IFD entry, so the constants are the tag numbers of
  TIFF 6.0 and GeoTIFF (the spec names 34737 for GeoAsciiParams and 1026 for
  GTCitationGeoKey); the proofs use only that they are distinct.
\<close>

definition NewSubFileType :: number where "NewSubFileType = Fin 254"
definition ImageWidth :: number where "ImageWidth = Fin 256"
definition ImageHeight :: number where "ImageHeight = Fin 257"
definition Compression :: number where "Compression = Fin 259"
definition StripOffsets :: number where "StripOffsets = Fin 273"
definition StripByteCounts :: number where "StripByteCounts = Fin 279"
definition TileWidth :: number where "TileWidth = Fin 322"
definition TileHeight :: number where "TileHeight = Fin 323"
definition TileOffsets :: number where "TileOffsets = Fin 324"
definition TileByteCounts :: number where "TileByteCounts = Fin 325"
definition JPEGTables :: number where "JPEGTables = Fin 347"
definition ModelPixelScale :: number where "ModelPixelScale = Fin 33550"
definition ModelTransformation :: number where "ModelTransformation = Fin 34264"
definition GeoKeyDirectory :: number where "GeoKeyDirectory = Fin 34735"
definition GeoDoubleParams :: number where "GeoDoubleParams = Fin 34736"
definition GeoAsciiParams :: number where "GeoAsciiParams = Fin 34737"
definition GTCitationGeoKey :: number where "GTCitationGeoKey = Fin 1026"

text \<open>
  A tag is one of three shapes, told apart by its \<^verbatim>\<open>type\<close> field. \<^verbatim>\<open>isLoaded\<close> is read
  for offset tags only; the value of a lazy tag is \<^verbatim>\<open>null\<close> until it is fetched.
\<close>

datatype tag_type = Inline | Offset | Lazy

record tag =
  tag_type :: tag_type
  tag_id :: number
  tag_count :: nat
  tag_value :: jsval
  isLoaded :: bool

text \<open>
  Every exception the modelled code raises. \<open>TypeError\<close> and \<open>RangeError\<close> are the
  JavaScript runtime's (a property of \<^verbatim>\<open>undefined\<close>, a typed array written past its
  end); \<open>External\<close> carries the message of an error raised by a collaborator that
  is not among the sources (the Source, \<^verbatim>\<open>getValueAt\<close>, \<^verbatim>\<open>fetchLazy\<close>,
  \<^verbatim>\<open>getUint\<close>), so that such an error is never one of the others.
\<close>

datatype error =
    TypeError
  | RangeError
  | External string
  | NoGeoTransformation
  | InvalidGeoTags
  | FailedToExtractGeoTiffTags
  | GeoTagsNotLoaded
  | NoTileOffsets
  | NoTileByteCounts
  | CannotReadStripes number
  | StripIndexOutOfBounds
  | UnableToFindJpegHeader
  | UnsupportedCompression jsval
  | FailedToFetchBytes jsval jsval nat
  | TileOutsideRange number number
  | TileOutsideTileRange number number
  | TagIndexOutOfBounds number number

definition external :: "string + 'a \<Rightarrow> error + 'a" where
  "external r = (case r of Inl msg \<Rightarrow> Inl (External msg) | Inr v \<Rightarrow> Inr v)"

type_synonym byte = "8 word"

text \<open>
  An image owns its tag map, the flag \<^verbatim>\<open>isGeoTagsLoaded\<close> and the unpacked geo keys.
  Its \<^verbatim>\<open>id\<close> is its position in \<^verbatim>\<open>images\<close> (\<^verbatim>\<open>readIfd\<close> creates it with
  \<^verbatim>\<open>this.images.length\<close>), so the model addresses an image by that index wherever the
  source reads \<^verbatim>\<open>this.id\<close>. The back reference \<^verbatim>\<open>this.tiff\<close> is the reader passed along.
\<close>

record image =
  tags :: "number \<Rightarrow> tag option"
  isGeoTagsLoaded :: bool
  tagsGeo :: "jsval \<Rightarrow> jsval option"

text \<open>
  The reader: its images, \<^verbatim>\<open>options?.tileLeaderByteSize\<close> (\<^verbatim>\<open>undefined\<close> without ghost
  options), the byte order and the Source. The Source answers a range request
  \<^verbatim>\<open>fetch(offset, length)\<close> with bytes or rejects; the file is read-only, so the answer
  depends on the request alone.
\<close>

record cogtiff =
  images :: "image list"
  tileLeaderByteSize :: jsval
  isLittleEndian :: bool
  source :: "jsval \<Rightarrow> jsval \<Rightarrow> string + byte list"

record Size =
  width :: jsval
  height :: jsval


record CogTiffImageTiledCount =
  count_x :: number
  count_y :: number

section \<open>Collaborators that are not among the sources\<close>

text \<open>
  The table \<^verbatim>\<open>TiffCompression\<close> and the constant \<^verbatim>\<open>TiffMimeType.Jpeg\<close>
  (\<^verbatim>\<open>const/tiff.mime.ts\<close>), \<^verbatim>\<open>getValueAt\<close>, \<^verbatim>\<open>fetchLazy\<close> and \<^verbatim>\<open>fetchAllOffsets\<close>
  (\<^verbatim>\<open>read/tiff.tag.factory.ts\<close>) and \<^verbatim>\<open>getUint\<close> (\<^verbatim>\<open>util/bytes.ts\<close>) are used by the
  sources and not among them: they are parameters of the model. A MIME type is its
  string; a function that returns a promise returns the value it resolves to or the
  message of the error it rejects with.
\<close>

record externals =
  TiffCompression :: "number \<Rightarrow> string option"
  MimeJpeg :: string
  getValueAt :: "cogtiff \<Rightarrow> tag \<Rightarrow> number \<Rightarrow> string + jsval"
  getUint :: "byte list \<Rightarrow> number \<Rightarrow> jsval \<Rightarrow> bool \<Rightarrow> string + number"
  fetchLazy :: "tag \<Rightarrow> cogtiff \<Rightarrow> string + jsval"
  fetchAllOffsets :: "cogtiff \<Rightarrow> tag \<Rightarrow> string + jsval"

section \<open>Promises and the Source\<close>

text \<open>
  An expression that is a plain value or a promise is \<open>error + (error + 'a)\<close>: the outer
  \<open>Inl\<close> is an exception raised while the expression is evaluated, the inner sum is
  what the promise settles to. \<^verbatim>\<open>await e\<close> and \<^verbatim>\<open>await Promise.all([e1, e2])\<close> inside
  an async function: the elements are evaluated in order, so an exception raised by
  the first keeps the second from being evaluated, and an exception raised by either
  goes before a rejection; when both promises reject the model takes the first's error.
\<close>

definition await1 :: "error + (error + 'a) \<Rightarrow> error + 'a" where
  "await1 e = (case e of Inl err \<Rightarrow> Inl err | Inr p \<Rightarrow> p)"

definition await_all2 ::
  "error + (error + 'a) \<Rightarrow> error + (error + 'b) \<Rightarrow> error + 'a \<times> 'b" where
  "await_all2 e1 e2 =
     (case e1 of Inl err \<Rightarrow> Inl err
      | Inr p1 \<Rightarrow>
          (case e2 of Inl err \<Rightarrow> Inl err
           | Inr p2 \<Rightarrow>
               (case p1 of Inl err \<Rightarrow> Inl err
                | Inr v1 \<Rightarrow> (case p2 of Inl err \<Rightarrow> Inl err | Inr v2 \<Rightarrow> Inr (v1, v2)))))"

text \<open>
  A function that reads from the Source returns its outcome and the range requests
  \<^verbatim>\<open>(offset, length)\<close> it sent to \<^verbatim>\<open>tiff.source.fetch\<close>, in order. The requests of the
  collaborators above are their own and not in this list.
\<close>

type_synonym request = "jsval \<times> jsval"

section \<open>The image's accessors\<close>

text \<open>\<^verbatim>\<open>CogTiffImage.value\<close>: the loaded value of a tag, \<^verbatim>\<open>null\<close> otherwise.\<close>

definition value_of :: "image \<Rightarrow> number \<Rightarrow> jsval" where
  "value_of img t =
     (case tags img t of
        None \<Rightarrow> Null
      | Some sourceTag \<Rightarrow>
          if tag_type sourceTag = Offset \<and> isLoaded sourceTag = False then Null
          else tag_value sourceTag)"

text \<open>\<^verbatim>\<open>get size\<close>, \<^verbatim>\<open>isTiled\<close>, \<^verbatim>\<open>get tileSize\<close>, \<^verbatim>\<open>get tileCount\<close>.\<close>

definition image_size :: "image \<Rightarrow> Size" where
  "image_size img =
     \<lparr>width = value_of img ImageWidth, height = value_of img ImageHeight\<rparr>"

definition isTiled :: "image \<Rightarrow> bool" where
  "isTiled img = (value_of img TileWidth \<noteq> Null)"

definition tileSize :: "image \<Rightarrow> Size" where
  "tileSize img =
     \<lparr>width = value_of img TileWidth, height = value_of img TileHeight\<rparr>"

definition tileCount :: "image \<Rightarrow> CogTiffImageTiledCount" where
  "tileCount img =
     (let size = image_size img; tileSize = tileSize img;
          x = js_ceil (js_div (ToNumber (width size)) (ToNumber (width tileSize)));
          y = js_ceil (js_div (ToNumber (height size)) (ToNumber (height tileSize)))
      in \<lparr>count_x = x, count_y = y\<rparr>)"


section \<open>Tiles and strips\<close>

text \<open>\<^verbatim>\<open>get compression\<close>: the MIME type of the \<^verbatim>\<open>Compression\<close> tag, \<^verbatim>\<open>null\<close> when the
  tag is not a loaded number or the table has no entry for it.\<close>

definition compression :: "externals \<Rightarrow> image \<Rightarrow> string option" where
  "compression ext img =
     (case value_of img Compression of
        Num n \<Rightarrow> TiffCompression ext n
      | _ \<Rightarrow> None)"

text \<open>\<^verbatim>\<open>get tileOffset\<close>.\<close>

definition tileOffset :: "image \<Rightarrow> error + tag" where
  "tileOffset img =
     (case tags img TileOffsets of None \<Rightarrow> Inl NoTileOffsets | Some t \<Rightarrow> Inr t)"

text \<open>\<^verbatim>\<open>get stripCount\<close>.\<close>

definition stripCount :: "image \<Rightarrow> nat" where
  "stripCount img =
     (case tags img StripByteCounts of None \<Rightarrow> 0 | Some t \<Rightarrow> tag_count t)"

text \<open>
  \<^verbatim>\<open>getOffset\<close>, the element of an offset or inline tag. The tag is \<open>None\<close> where the
  caller passes \<^verbatim>\<open>undefined\<close> (a tag the image does not have, cast to \<^verbatim>\<open>TagOffset\<close>);
  reading \<^verbatim>\<open>x.count\<close> then raises a TypeError, as does indexing a \<^verbatim>\<open>null\<close> value.
\<close>

definition getOffset ::
  "externals \<Rightarrow> cogtiff \<Rightarrow> tag option \<Rightarrow> number \<Rightarrow> error + (error + jsval)" where
  "getOffset ext tiff x index =
     (case x of
        None \<Rightarrow> Inl TypeError
      | Some x \<Rightarrow>
          if js_gt index (Fin (of_nat (tag_count x))) \<or> js_lt index (Fin 0)
          then Inl (TagIndexOutOfBounds (tag_id x) index)
          else if tag_type x = Inline then
            (if 1 < tag_count x then
               (if nullish (tag_value x) then Inl TypeError
                else Inr (Inr (js_get (tag_value x) index)))
             else Inr (Inr (tag_value x)))
          else Inr (external (getValueAt ext tiff x index)))"

record TileSize =
  tile_offset :: jsval
  imageSize :: jsval

text \<open>\<^verbatim>\<open>getTileSize\<close>: the offset and byte count of a tile, from the tile leader when the
  ghost options give its size, from \<^verbatim>\<open>TileOffsets\<close> and \<^verbatim>\<open>TileByteCounts\<close> otherwise.\<close>

definition getTileSize ::
  "externals \<Rightarrow> cogtiff \<Rightarrow> image \<Rightarrow> number \<Rightarrow> (error + TileSize) \<times> request list" where
  "getTileSize ext tiff img index =
     (let leaderBytes = tileLeaderByteSize tiff in
      if truthy leaderBytes then
        (case tileOffset img of
           Inl err \<Rightarrow> (Inl err, [])
         | Inr tileOffsets \<Rightarrow>
             (case await1 (getOffset ext tiff (Some tileOffsets) index) of
                Inl err \<Rightarrow> (Inl err, [])
              | Inr offset \<Rightarrow>
                  if strict_eq_num offset (Fin 0)
                  then (Inr \<lparr>tile_offset = Num (Fin 0), imageSize = Num (Fin 0)\<rparr>, [])
                  else
                    (let req = (Num (js_sub (ToNumber offset) (ToNumber leaderBytes)), leaderBytes)
                     in case external (source tiff (fst req) (snd req)) of
                          Inl err \<Rightarrow> (Inl err, [req])
                        | Inr bytes \<Rightarrow>
                            (case external
                                    (getUint ext bytes (Fin 0) leaderBytes (isLittleEndian tiff)) of
                               Inl err \<Rightarrow> (Inl err, [req])
                             | Inr n \<Rightarrow>
                                 (Inr \<lparr>tile_offset = offset, imageSize = Num n\<rparr>, [req])))))
      else
        (case tags img TileByteCounts of
           None \<Rightarrow> (Inl NoTileByteCounts, [])
         | Some byteCounts \<Rightarrow>
             (case tileOffset img of
                Inl err \<Rightarrow> (Inl err, [])
              | Inr tileOffsets \<Rightarrow>
                  (case await_all2 (getOffset ext tiff (Some tileOffsets) index)
                          (getOffset ext tiff (Some byteCounts) index) of
                     Inl err \<Rightarrow> (Inl err, [])
                   | Inr (offset, byteCount) \<Rightarrow>
                       (Inr \<lparr>tile_offset = offset, imageSize = byteCount\<rparr>, [])))))"

text \<open>
  Typed arrays. A number stored into a \<^verbatim>\<open>Uint8Array\<close> is truncated and taken modulo 256
  (a non-finite one is 0); a character of a string written with \<^verbatim>\<open>set\<close> is converted
  as a number first, so a digit is its value and any other character is 0.
  \<^verbatim>\<open>new Uint8Array(n)\<close> raises a RangeError for a negative \<open>n\<close>, and
  \<^verbatim>\<open>target.set(source, offset)\<close> when the source does not fit.
\<close>

fun ToUint8 :: "number \<Rightarrow> byte" where
  "ToUint8 (Fin a) = word_of_int (trunc a)"
| "ToUint8 n = 0"

definition char_ToUint8 :: "char \<Rightarrow> byte" where
  "char_ToUint8 c =
     (if of_char CHR ''0'' \<le> (of_char c :: nat) \<and> (of_char c :: nat) \<le> of_char CHR ''9''
      then of_nat (of_char c - of_char CHR ''0'') else 0)"

definition new_Uint8Array :: "int \<Rightarrow> error + byte list" where
  "new_Uint8Array n = (if n < 0 then Inl RangeError else Inr (replicate (nat n) 0))"

definition Uint8Array_set :: "byte list \<Rightarrow> byte list \<Rightarrow> nat \<Rightarrow> error + byte list" where
  "Uint8Array_set target src off =
     (if length target < length src + off then Inl RangeError
      else Inr (take off target @ src @ drop (off + length src) target))"

text \<open>
  \<^verbatim>\<open>getJpegHeader\<close>: the JPEG tables without their last two bytes, then the tile's bytes
  without their first two. \<^verbatim>\<open>tables.slice\<close> on a number is a TypeError.
\<close>

definition getJpegHeader :: "image \<Rightarrow> byte list \<Rightarrow> error + byte list" where
  "getJpegHeader img bytes =
     (let tables = value_of img JPEGTables in
      if nullish tables then Inl UnableToFindJpegHeader
      else
        (case (case tables of
                 Arr xs \<Rightarrow>
                   Inr (map ToUint8 (js_slice xs (Fin 0) (Fin (of_nat (length xs) - 2))))
               | Str s \<Rightarrow>
                   Inr (map char_ToUint8 (js_slice s (Fin 0) (Fin (of_nat (length s) - 2))))
               | _ \<Rightarrow> Inl TypeError) of
           Inl err \<Rightarrow> Inl err
         | Inr tableData \<Rightarrow>
             (case new_Uint8Array (int (length bytes) + int (length tableData) - 2) of
                Inl err \<Rightarrow> Inl err
              | Inr actualBytes \<Rightarrow>
                  (case Uint8Array_set actualBytes tableData 0 of
                     Inl err \<Rightarrow> Inl err
                   | Inr actualBytes \<Rightarrow>
                       Uint8Array_set actualBytes (drop 2 bytes) (length tableData)))))"

text \<open>\<^verbatim>\<open>getBytes\<close>: the bytes of a tile or strip with their MIME type, \<^verbatim>\<open>null\<close>
  (\<open>None\<close>) when the byte count is 0.\<close>

definition getBytes ::
  "externals \<Rightarrow> cogtiff \<Rightarrow> image \<Rightarrow> jsval \<Rightarrow> jsval
     \<Rightarrow> (error + (string \<times> byte list) option) \<times> request list" where
  "getBytes ext tiff img offset byteCount =
     (case compression ext img of
        None \<Rightarrow> (Inl (UnsupportedCompression (value_of img Compression)), [])
      | Some mimeType \<Rightarrow>
          if strict_eq_num byteCount (Fin 0) then (Inr None, [])
          else
            (case external (source tiff offset byteCount) of
               Inl err \<Rightarrow> (Inl err, [(offset, byteCount)])
             | Inr bytes \<Rightarrow>
                 if js_lt (Fin (of_nat (length bytes))) (ToNumber byteCount)
                 then (Inl (FailedToFetchBytes offset byteCount (length bytes)),
                       [(offset, byteCount)])
                 else if compression ext img = Some (MimeJpeg ext) then
                   (case getJpegHeader img bytes of
                      Inl err \<Rightarrow> (Inl err, [(offset, byteCount)])
                    | Inr actualBytes \<Rightarrow>
                        (Inr (Some (mimeType, actualBytes)), [(offset, byteCount)]))
                 else (Inr (Some (mimeType, bytes)), [(offset, byteCount)])))"

text \<open>
  \<^verbatim>\<open>getTile\<close>. The test \<^verbatim>\<open>tiles == null\<close> of the source never holds (\<^verbatim>\<open>tileSize\<close> is
  an object) and is left out, here and in \<^verbatim>\<open>hasTile\<close>. Every operation is rounded:
  the quotients of the sizes, the index \<^verbatim>\<open>y * nxTiles + x\<close> and the number of tiles
  \<^verbatim>\<open>nxTiles * nyTiles\<close>, where the rounding shows once they pass \<open>2 ^ 53\<close>.
\<close>

definition getTile ::
  "externals \<Rightarrow> cogtiff \<Rightarrow> image \<Rightarrow> number \<Rightarrow> number
     \<Rightarrow> (error + (string \<times> byte list) option) \<times> request list" where
  "getTile ext tiff img x y =
     (let mimeType = compression ext img; size = image_size img; tiles = tileSize img in
      if mimeType = None then (Inl (UnsupportedCompression (value_of img Compression)), [])
      else
        (let nyTiles = js_ceil (rnd (js_div (ToNumber (height size)) (ToNumber (height tiles))));
             nxTiles = js_ceil (rnd (js_div (ToNumber (width size)) (ToNumber (width tiles))))
         in if js_ge x nxTiles \<or> js_ge y nyTiles then (Inl (TileOutsideRange x y), [])
            else
              (let idx = rnd (js_add (rnd (js_mul y nxTiles)) x);
                   totalTiles = rnd (js_mul nxTiles nyTiles)
               in if js_ge idx totalTiles then (Inl (TileOutsideTileRange idx totalTiles), [])
                  else
                    (case getTileSize ext tiff img idx of
                       (Inl err, reqs) \<Rightarrow> (Inl err, reqs)
                     | (Inr ts, reqs) \<Rightarrow>
                         (case getBytes ext tiff img (tile_offset ts) (imageSize ts) of
                            (r, reqs') \<Rightarrow> (r, reqs @ reqs'))))))"

text \<open>\<^verbatim>\<open>hasTile\<close>.\<close>

definition hasTile ::
  "externals \<Rightarrow> cogtiff \<Rightarrow> image \<Rightarrow> number \<Rightarrow> number \<Rightarrow> (error + bool) \<times> request list" where
  "hasTile ext tiff img x y =
     (let tiles = tileSize img; size = image_size img;
          nyTiles = js_ceil (rnd (js_div (ToNumber (height size)) (ToNumber (height tiles))));
          nxTiles = js_ceil (rnd (js_div (ToNumber (width size)) (ToNumber (width tiles))))
      in if js_ge x nxTiles \<or> js_ge y nyTiles then (Inr False, [])
         else
           (let idx = rnd (js_add (rnd (js_mul y nxTiles)) x)
            in case getTileSize ext tiff img idx of
                 (Inl err, reqs) \<Rightarrow> (Inl err, reqs)
               | (Inr ret, reqs) \<Rightarrow> (Inr (js_gt (ToNumber (tile_offset ret)) (Fin 0)), reqs)))"

text \<open>
  \<^verbatim>\<open>getStrip\<close>. The names are the source's: \<^verbatim>\<open>byteCount\<close> is bound to the element of
  \<^verbatim>\<open>StripOffsets\<close> and \<^verbatim>\<open>offset\<close> to the element of \<^verbatim>\<open>StripByteCounts\<close>, and
  \<^verbatim>\<open>getBytes\<close> is called with \<^verbatim>\<open>(byteCount, offset)\<close>.
\<close>

definition getStrip ::
  "externals \<Rightarrow> cogtiff \<Rightarrow> image \<Rightarrow> number
     \<Rightarrow> (error + (string \<times> byte list) option) \<times> request list" where
  "getStrip ext tiff img index =
     (if isTiled img then (Inl (CannotReadStripes index), [])
      else
        (let byteCounts = tags img StripByteCounts; offsets = tags img StripOffsets in
         case byteCounts of
           None \<Rightarrow> (Inl TypeError, [])
         | Some bc \<Rightarrow>
             if js_ge index (Fin (of_nat (tag_count bc))) then (Inl StripIndexOutOfBounds, [])
             else
               (case await_all2 (getOffset ext tiff offsets index)
                       (getOffset ext tiff byteCounts index) of
                  Inl err \<Rightarrow> (Inl err, [])
                | Inr (byteCount, offset) \<Rightarrow> getBytes ext tiff img byteCount offset)))"

section \<open>Resolutions\<close>

text \<open>
  \<^verbatim>\<open>get resolution\<close> of the image at index \<open>i\<close>: its pixel scale, else its model
  transformation, else for a sub image (\<^verbatim>\<open>NewSubFileType\<close> 1, not the first image) the
  resolution of the first image scaled by the sizes, else an error. An index past the
  last image is no image of the reader, and reading it is a TypeError.
\<close>

function resolution :: "cogtiff \<Rightarrow> nat \<Rightarrow> error + jsval \<times> jsval \<times> jsval" where
  "resolution tiff i =
     (if length (images tiff) \<le> i then Inl TypeError
      else
        (let img = images tiff ! i; modelPixelScale = value_of img ModelPixelScale in
         if \<not> nullish modelPixelScale then
           Inr (js_get modelPixelScale (Fin 0),
                Num (js_neg (ToNumber (js_get modelPixelScale (Fin 1)))),
                js_get modelPixelScale (Fin 2))
         else
           (let modelTransformation = value_of img ModelTransformation in
            if \<not> nullish modelTransformation then
              Inr (js_get modelTransformation (Fin 0), js_get modelTransformation (Fin 5),
                   js_get modelTransformation (Fin 10))
            else if strict_eq_num (value_of img NewSubFileType) (Fin 1) \<and> i \<noteq> 0 then
              (case resolution tiff 0 of
                 Inl err \<Rightarrow> Inl err
               | Inr (resX, resY, resZ) \<Rightarrow>
                   (let firstImgSize = image_size (images tiff ! 0); imgSize = image_size img
                    in Inr (Num (rnd (js_div
                                   (rnd (js_mul (ToNumber resX) (ToNumber (width firstImgSize))))
                                   (ToNumber (width imgSize)))),
                            Num (rnd (js_div
                                   (rnd (js_mul (ToNumber resY) (ToNumber (height firstImgSize))))
                                   (ToNumber (height imgSize)))),
                            resZ)))
            else Inl NoGeoTransformation)))"
  by pat_completeness auto
termination
  by (relation "measure snd") auto

declare resolution.simps [simp del]

text \<open>
  The loop of \<^verbatim>\<open>getImageByResolution\<close>, from index \<open>i\<close> down to 1: the index of the
  image it returns, or 0 when it falls through to \<^verbatim>\<open>firstImage\<close>. The quotient, the
  difference and the literal \<^verbatim>\<open>0.01\<close> of the test are doubles.
\<close>

fun resolution_loop :: "cogtiff \<Rightarrow> number \<Rightarrow> number \<Rightarrow> nat \<Rightarrow> nat" where
  "resolution_loop tiff resolutionBaseX r 0 = 0"
| "resolution_loop tiff resolutionBaseX r (Suc k) =
     (let img = images tiff ! Suc k; imgSize = image_size img;
          imgResolutionX = rnd (js_div resolutionBaseX (ToNumber (width imgSize)))
      in if js_le (rnd (js_sub imgResolutionX r)) (dbl (1 / 100)) then Suc k
         else resolution_loop tiff resolutionBaseX r k)"

text \<open>
  \<^verbatim>\<open>getImageByResolution\<close>, first as the index of the image it returns. Without an image
  \<^verbatim>\<open>firstImage\<close> is \<^verbatim>\<open>undefined\<close> and reading its size is a TypeError.
\<close>

definition getImageByResolution_index :: "cogtiff \<Rightarrow> number \<Rightarrow> error + nat" where
  "getImageByResolution_index tiff r =
     (case images tiff of
        [] \<Rightarrow> Inl TypeError
      | firstImage # others \<Rightarrow>
          (let firstImageSize = image_size firstImage in
           case resolution tiff 0 of
             Inl err \<Rightarrow> Inl err
           | Inr (refX, refY, refZ) \<Rightarrow>
               (let resolutionBaseX =
                      rnd (js_mul (ToNumber refX) (ToNumber (width firstImageSize)))
                in Inr (resolution_loop tiff resolutionBaseX r (length (images tiff) - 1)))))"

definition getImageByResolution :: "cogtiff \<Rightarrow> number \<Rightarrow> error + image" where
  "getImageByResolution tiff r =
     (case getImageByResolution_index tiff r of
        Inl err \<Rightarrow> Inl err
      | Inr i \<Rightarrow> Inr (images tiff ! i))"

section \<open>Geo keys\<close>

text \<open>
  \<^verbatim>\<open>CogTiffImage.fetch\<close>: the value of a tag, loaded if it was not, with the image after
  the call. Modelled from the spec: \<^verbatim>\<open>fetchLazy\<close> and \<^verbatim>\<open>fetchAllOffsets\<close> are not among
  the sources; they return the value they loaded and, as the spec says, cache it in the
  tag (for an offset tag setting \<^verbatim>\<open>isLoaded\<close>). The final \<^verbatim>\<open>throw\<close> of the source is
  reached for no tag type.
\<close>

definition fetch ::
  "externals \<Rightarrow> cogtiff \<Rightarrow> image \<Rightarrow> number \<Rightarrow> (error + jsval) \<times> image" where
  "fetch ext tiff img t =
     (case tags img t of
        None \<Rightarrow> (Inr Null, img)
      | Some sourceTag \<Rightarrow>
          if tag_type sourceTag = Inline then (Inr (tag_value sourceTag), img)
          else if tag_type sourceTag = Lazy then
            (case external (fetchLazy ext sourceTag tiff) of
               Inl err \<Rightarrow> (Inl err, img)
             | Inr v \<Rightarrow>
                 (Inr v, img\<lparr>tags := (tags img)(t \<mapsto> sourceTag\<lparr>tag_value := v\<rparr>)\<rparr>))
          else if isLoaded sourceTag then (Inr (tag_value sourceTag), img)
          else
            (case external (fetchAllOffsets ext tiff sourceTag) of
               Inl err \<Rightarrow> (Inl err, img)
             | Inr v \<Rightarrow>
                 (Inr v,
                  img\<lparr>tags := (tags img)(t \<mapsto> sourceTag\<lparr>tag_value := v, isLoaded := True\<rparr>)\<rparr>)))"

text \<open>\<^verbatim>\<open>tags.get(id)\<close> for an id read from an array: only a number is a key of the map.\<close>

fun tags_get :: "(number \<Rightarrow> tag option) \<Rightarrow> jsval \<Rightarrow> tag option" where
  "tags_get m (Num n) = m n"
| "tags_get m v = None"

text \<open>
  \<^verbatim>\<open>String.prototype.trim\<close>. A character of a string is a code unit below 256; of
  these, JavaScript's white space and line terminators are 9 to 13, 32 and 160.
\<close>

definition is_js_space :: "char \<Rightarrow> bool" where
  "is_js_space c = ((of_char c :: nat) \<in> {9, 10, 11, 12, 13, 32, 160})"

definition js_trim :: "string \<Rightarrow> string" where
  "js_trim s = rev (dropWhile is_js_space (rev (dropWhile is_js_space s)))"

text \<open>
  The loop of \<^verbatim>\<open>loadGeoTiffTags\<close> from \<open>i\<close> on, over the geo key map: the error it
  raises, if any, and the map it leaves. The bound \<^verbatim>\<open>geoTags[3] * 4\<close> may be infinite,
  and then the loop does not return unless an entry raises: the result \<open>None\<close>.
  An element read past the end of the array is \<^verbatim>\<open>undefined\<close>.
\<close>

partial_function (option) geo_loop ::
  "(number \<Rightarrow> tag option) \<Rightarrow> jsval \<Rightarrow> nat \<Rightarrow> (jsval \<Rightarrow> jsval option)
     \<Rightarrow> (error option \<times> (jsval \<Rightarrow> jsval option)) option" where
  "geo_loop tgs geoTags i geo =
     (if js_le (Fin (of_nat i)) (js_mul (ToNumber (js_get geoTags (Fin 3))) (Fin 4)) then
        (let key = js_get geoTags (Fin (of_nat i));
             locationTagId = js_get geoTags (Fin (of_nat (i + 1)));
             offset = js_get geoTags (Fin (of_nat (i + 3)))
         in if strict_eq_num locationTagId (Fin 0)
            then geo_loop tgs geoTags (i + 4) (geo(key \<mapsto> offset))
            else
              (case tags_get tgs locationTagId of
                 None \<Rightarrow> geo_loop tgs geoTags (i + 4) geo
               | Some t \<Rightarrow>
                   if nullish (tag_value t) then geo_loop tgs geoTags (i + 4) geo
                   else
                     (let count = js_get geoTags (Fin (of_nat (i + 2))) in
                      case tag_value t of
                        Str s \<Rightarrow>
                          geo_loop tgs geoTags (i + 4)
                            (geo(key \<mapsto>
                               Str (js_trim (js_slice s (ToNumber offset)
                                     (js_sub (js_add (ToNumber offset) (ToNumber count))
                                        (Fin 1))))))
                      | _ \<Rightarrow> Some (Some FailedToExtractGeoTiffTags, geo))))
      else Some (None, geo))"

declare geo_loop.simps [code]

text \<open>
  \<^verbatim>\<open>loadGeoTiffTags\<close>: the error it raises, if any, and the image it leaves; \<open>None\<close>
  when it does not return. The three fetches of \<^verbatim>\<open>Promise.all\<close> all run; the error is
  that of the first that fails.
\<close>

definition loadGeoTiffTags ::
  "externals \<Rightarrow> cogtiff \<Rightarrow> image \<Rightarrow> (error option \<times> image) option" where
  "loadGeoTiffTags ext tiff img =
     (if isGeoTagsLoaded img then Some (None, img)
      else
        (case tags img GeoKeyDirectory of
           None \<Rightarrow> Some (None, img\<lparr>isGeoTagsLoaded := True\<rparr>)
         | Some sourceTag \<Rightarrow>
             (let (fetched, img1) =
                (if tag_type sourceTag = Lazy \<and> nullish (tag_value sourceTag) then
                   (let (r1, i1) = fetch ext tiff img GeoKeyDirectory;
                        (r2, i2) = fetch ext tiff i1 GeoAsciiParams;
                        (r3, i3) = fetch ext tiff i2 GeoDoubleParams
                    in (case r1 of Inl err \<Rightarrow> Some err
                        | Inr v1 \<Rightarrow>
                            (case r2 of Inl err \<Rightarrow> Some err
                             | Inr v2 \<Rightarrow> (case r3 of Inl err \<Rightarrow> Some err | Inr v3 \<Rightarrow> None)),
                        i3))
                 else (None, img))
              in case fetched of
                   Some err \<Rightarrow> Some (Some err, img1)
                 | None \<Rightarrow>
                     (let img2 = img1\<lparr>isGeoTagsLoaded := True\<rparr>;
                          geoTags = (case tags img2 GeoKeyDirectory of
                                       None \<Rightarrow> Undefined | Some t \<Rightarrow> tag_value t)
                      in if nullish geoTags then Some (None, img2)
                         else
                           (case geoTags of
                              Num n \<Rightarrow> Some (Some InvalidGeoTags, img2)
                            | _ \<Rightarrow>
                                (case geo_loop (tags img2) geoTags 4 (tagsGeo img2) of
                                   None \<Rightarrow> None
                                 | Some (err, geo) \<Rightarrow>
                                     Some (err, img2\<lparr>tagsGeo := geo\<rparr>)))))))"

text \<open>\<^verbatim>\<open>valueGeo\<close>.\<close>

definition valueGeo :: "image \<Rightarrow> number \<Rightarrow> error + jsval" where
  "valueGeo img t =
     (if isGeoTagsLoaded img = False then Inl GeoTagsNotLoaded
      else Inr (case tagsGeo img (Num t) of None \<Rightarrow> Undefined | Some v \<Rightarrow> v))"

section \<open>Example images\<close>

definition inline_tag :: "number \<Rightarrow> jsval \<Rightarrow> tag" where
  "inline_tag i v =
     \<lparr>tag_type = Inline, tag_id = i, tag_count = 1, tag_value = v, isLoaded = False\<rparr>"

text \<open>A tiled image of the given size with the given tile size and no other tag.\<close>

definition tiled_image :: "rat \<Rightarrow> rat \<Rightarrow> rat \<Rightarrow> rat \<Rightarrow> image" where
  "tiled_image w h tw th =
     \<lparr>tags = map_of
        [(ImageWidth, inline_tag ImageWidth (Num (Fin w))),
         (ImageHeight, inline_tag ImageHeight (Num (Fin h))),
         (TileWidth, inline_tag TileWidth (Num (Fin tw))),
         (TileHeight, inline_tag TileHeight (Num (Fin th)))],
      isGeoTagsLoaded = False, tagsGeo = Map.empty\<rparr>"

text \<open>An inline tag holding an array, and an image with one more tag.\<close>

definition array_tag :: "number \<Rightarrow> number list \<Rightarrow> tag" where
  "array_tag i xs =
     \<lparr>tag_type = Inline, tag_id = i, tag_count = length xs, tag_value = Arr xs,
      isLoaded = False\<rparr>"

definition with_tag :: "image \<Rightarrow> tag \<Rightarrow> image" where
  "with_tag img t = img\<lparr>tags := (tags img)(tag_id t \<mapsto> t)\<rparr>"

text \<open>
  Collaborators for the examples: a compression table that knows 1 (no compression)
  and 7 (JPEG), and tag readers that are never reached, since the example tags are
  inline.
\<close>

definition example_ext :: externals where
  "example_ext =
     \<lparr>TiffCompression =
        (\<lambda>n. if n = Fin 1 then Some ''application/octet-stream''
             else if n = Fin 7 then Some ''image/jpeg'' else None),
      MimeJpeg = ''image/jpeg'',
      getValueAt = (\<lambda>tiff t i. Inl ''getValueAt''),
      getUint = (\<lambda>bytes off n le. Inl ''getUint''),
      fetchLazy = (\<lambda>t tiff. Inl ''fetchLazy''),
      fetchAllOffsets = (\<lambda>tiff t. Inl ''fetchAllOffsets'')\<rparr>"

text \<open>A Source that serves a file held in memory, and a reader over it.\<close>

fun file_source :: "byte list \<Rightarrow> jsval \<Rightarrow> jsval \<Rightarrow> string + byte list" where
  "file_source file (Num (Fin off)) (Num (Fin len)) =
     Inr (take (nat \<lfloor>len\<rfloor>) (drop (nat \<lfloor>off\<rfloor>) file))"
| "file_source file off len = Inl ''bad request''"

definition example_reader :: "byte list \<Rightarrow> image list \<Rightarrow> cogtiff" where
  "example_reader file imgs =
     \<lparr>images = imgs, tileLeaderByteSize = Undefined, isLittleEndian = True,
      source = file_source file\<rparr>"

text \<open>
  A 512 x 512 image in 256 x 256 tiles, not compressed, whose four tiles are recorded
  inline at offsets 16, 32, 48 and 64 with 16 bytes each.
\<close>

definition four_tiles :: image where
  "four_tiles =
     with_tag (with_tag (with_tag (tiled_image 512 512 256 256)
       (inline_tag Compression (Num (Fin 1))))
       (array_tag TileOffsets [Fin 16, Fin 32, Fin 48, Fin 64]))
       (array_tag TileByteCounts [Fin 16, Fin 16, Fin 16, Fin 16])"

text \<open>
  The image of four tiles with a first tile recorded at offset 0 with 16 bytes, and
  one whose second tile is recorded at offset 0 with 0 bytes.
\<close>

definition zero_offset_tiles :: image where
  "zero_offset_tiles =
     with_tag four_tiles (array_tag TileOffsets [Fin 0, Fin 32, Fin 48, Fin 64])"

definition sparse_tiles :: image where
  "sparse_tiles =
     with_tag (with_tag four_tiles (array_tag TileOffsets [Fin 16, Fin 0, Fin 48, Fin 64]))
       (array_tag TileByteCounts [Fin 16, Fin 0, Fin 16, Fin 16])"

text \<open>
  An image 2147483664 pixels wide and high in tiles of 16 x 16, not compressed: it has
  134217729 tiles each way, 18014398777917441 in all, whose offsets and byte counts are
  kept in the file. And collaborators that find 0 for every element of such a tag, as
  in a file whose tiles are all sparse.
\<close>

definition huge_tiles :: image where
  "huge_tiles =
     with_tag (with_tag (with_tag (tiled_image 2147483664 2147483664 16 16)
       (inline_tag Compression (Num (Fin 1))))
       \<lparr>tag_type = Offset, tag_id = TileOffsets, tag_count = 18014398777917441,
        tag_value = Undefined, isLoaded = False\<rparr>)
       \<lparr>tag_type = Offset, tag_id = TileByteCounts, tag_count = 18014398777917441,
        tag_value = Undefined, isLoaded = False\<rparr>"

definition sparse_ext :: externals where
  "sparse_ext = example_ext\<lparr>getValueAt := \<lambda>tiff t i. Inr (Num (Fin 0))\<rparr>"

text \<open>
  A 4 x 4 image of one strip, with the given compression, strip offset and strip byte
  count; the same with JPEG compression and its tables; and a file of a 6-byte JPEG
  payload followed by two more bytes.
\<close>

definition striped_image :: "rat \<Rightarrow> rat \<Rightarrow> rat \<Rightarrow> image" where
  "striped_image c off cnt =
     \<lparr>tags = map_of
        [(ImageWidth, inline_tag ImageWidth (Num (Fin 4))),
         (ImageHeight, inline_tag ImageHeight (Num (Fin 4))),
         (Compression, inline_tag Compression (Num (Fin c))),
         (StripOffsets, inline_tag StripOffsets (Num (Fin off))),
         (StripByteCounts, inline_tag StripByteCounts (Num (Fin cnt)))],
      isGeoTagsLoaded = False, tagsGeo = Map.empty\<rparr>"

definition jpeg_strip :: image where
  "jpeg_strip =
     with_tag (striped_image 7 0 6)
       (array_tag JPEGTables [Fin 255, Fin 216, Fin 255, Fin 219, Fin 255, Fin 217])"

definition jpeg_file :: "byte list" where
  "jpeg_file = [255, 216, 1, 2, 255, 217, 3, 4]"

text \<open>
  An image of the given width and height with the tags given besides, and a reader
  of four images: a base of 800 x 800 with pixel scale (1, 1, 0) and three overviews of
  half, a quarter and an eighth of its size, marked as sub images.
\<close>

definition sized_image :: "rat \<Rightarrow> rat \<Rightarrow> tag list \<Rightarrow> image" where
  "sized_image w h ts =
     \<lparr>tags = map_of
        ([(ImageWidth, inline_tag ImageWidth (Num (Fin w))),
          (ImageHeight, inline_tag ImageHeight (Num (Fin h)))]
         @ map (\<lambda>t. (tag_id t, t)) ts),
      isGeoTagsLoaded = False, tagsGeo = Map.empty\<rparr>"

definition pyramid :: cogtiff where
  "pyramid =
     example_reader []
       [sized_image 800 800 [array_tag ModelPixelScale [Fin 1, Fin 1, Fin 0]],
        sized_image 400 400 [inline_tag NewSubFileType (Num (Fin 1))],
        sized_image 200 200 [inline_tag NewSubFileType (Num (Fin 1))],
        sized_image 100 100 [inline_tag NewSubFileType (Num (Fin 1))]]"

text \<open>
  A reader whose overviews are not in order: a base of 800 x 800 with pixel scale
  (1, 1, 0), then an overview of an eighth and one of half its size. And a reader of a
  base of 800 x 800 with an overview of 7 x 7.
\<close>

definition unordered :: cogtiff where
  "unordered =
     example_reader []
       [sized_image 800 800 [array_tag ModelPixelScale [Fin 1, Fin 1, Fin 0]],
        sized_image 100 100 [inline_tag NewSubFileType (Num (Fin 1))],
        sized_image 400 400 [inline_tag NewSubFileType (Num (Fin 1))]]"

definition sevenths :: cogtiff where
  "sevenths =
     example_reader []
       [sized_image 800 800 [array_tag ModelPixelScale [Fin 1, Fin 1, Fin 0]],
        sized_image 7 7 [inline_tag NewSubFileType (Num (Fin 1))]]"

text \<open>
  An image whose geo key directory holds the one key (1026, 34737, 11, 0), with the
  ASCII parameters \<^verbatim>\<open>WGS 84|foo|\<close>, both loaded.
\<close>

definition geo_image :: image where
  "geo_image =
     sized_image 4 4
       [\<lparr>tag_type = Lazy, tag_id = GeoKeyDirectory, tag_count = 8,
         tag_value = Arr [Fin 1, Fin 1, Fin 0, Fin 1, Fin 1026, Fin 34737, Fin 11, Fin 0],
         isLoaded = False\<rparr>,
        \<lparr>tag_type = Lazy, tag_id = GeoAsciiParams, tag_count = 12,
         tag_value = Str ''WGS 84|foo|'', isLoaded = False\<rparr>]"

section \<open>Properties\<close>

subsection \<open>Rounding to a double\<close>

lemma bitlen_rat:
  assumes "0 < (n::int)"
  shows "(2::rat) powi (bitlen n - 1) \<le> of_int n \<and> of_int n < (2::rat) powi (bitlen n)"
proof -
  from bitlen_bounds [OF assms]
  have b: "2 ^ nat (bitlen n - 1) \<le> n" "n < 2 ^ nat (bitlen n)" by simp_all
  have p: "1 \<le> bitlen n" using assms bitlen_eq_zero_iff [of n] bitlen_nonneg [of n] by linarith
  have "(of_int (2 ^ nat (bitlen n - 1)) :: rat) \<le> of_int n" using b(1) by (simp only: of_int_le_iff)
  moreover have "(of_int n :: rat) < of_int (2 ^ nat (bitlen n))" using b(2) by (simp only: of_int_less_iff)
  ultimately show ?thesis using p by (simp add: power_int_def)
qed

lemma ilog2_bounds:
  assumes "0 < a"
  shows "2 powi (ilog2 a) \<le> a \<and> a < 2 powi (ilog2 a + 1)"
proof -
  obtain n d where q: "quotient_of a = (n, d)" by (cases "quotient_of a")
  have d: "0 < d" using quotient_of_denom_pos [OF q] .
  have a: "a = of_int n / of_int d" using quotient_of_div [OF q] .
  have n: "0 < n" using assms d by (simp add: a zero_less_divide_iff)
  define k where "k = bitlen n - bitlen d"
  note bn = bitlen_rat [OF n] and bd = bitlen_rat [OF d]
  have dpos: "0 < (of_int d :: rat)" using d by simp
  have up: "a < 2 powi (k + 1)"
  proof -
    have "of_int n < (2::rat) powi (bitlen n)" using bn by simp
    also have "\<dots> = 2 powi (k + 1) * 2 powi (bitlen d - 1)"
      by (simp add: k_def power_int_add [symmetric])
    also have "\<dots> \<le> 2 powi (k + 1) * of_int d"
      using bd by (intro mult_left_mono) simp_all
    finally show ?thesis using dpos by (simp add: a pos_divide_less_eq)
  qed
  have lo: "2 powi (k - 1) < a"
  proof -
    have "2 powi (k - 1) * of_int d < (2::rat) powi (k - 1) * 2 powi (bitlen d)"
      using bd by (intro mult_strict_left_mono) simp_all
    also have "\<dots> = 2 powi (bitlen n - 1)"
      by (simp add: k_def power_int_add [symmetric])
    also have "\<dots> \<le> of_int n" using bn by simp
    finally show ?thesis using dpos by (simp add: a pos_less_divide_eq)
  qed
  show ?thesis
  proof (cases "2 powi k \<le> a")
    case True
    then have "ilog2 a = k" by (simp add: ilog2_def q k_def)
    with True up show ?thesis by simp
  next
    case False
    then have "ilog2 a = k - 1" by (simp add: ilog2_def q k_def)
    with False lo show ?thesis by simp
  qed
qed


lemma p2_add: "(2::rat) powi i * 2 powi j = 2 powi (i + j)"
  by (simp add: power_int_add)

lemma ilog2_unique:
  assumes "2 powi e \<le> a" "a < 2 powi (e + 1)"
  shows "ilog2 a = e"
proof -
  have "0 < (2::rat) powi e" by simp
  with assms have pos: "0 < a" by linarith
  note b = ilog2_bounds [OF pos]
  have "\<not> e + 1 \<le> ilog2 a"
  proof
    assume "e + 1 \<le> ilog2 a"
    then have "(2::rat) powi (e + 1) \<le> 2 powi (ilog2 a)" by (intro power_int_increasing) simp_all
    with b assms show False by linarith
  qed
  moreover have "\<not> ilog2 a + 1 \<le> e"
  proof
    assume "ilog2 a + 1 \<le> e"
    then have "(2::rat) powi (ilog2 a + 1) \<le> 2 powi e" by (intro power_int_increasing) simp_all
    with b assms show False by linarith
  qed
  ultimately show ?thesis by linarith
qed

lemma round_even_near:
  assumes "\<bar>x - of_int m\<bar> < 1 / 2"
  shows "round_even x = m"
proof (cases "of_int m \<le> x")
  case True
  with assms have f: "\<lfloor>x\<rfloor> = m" by (intro floor_unique) linarith+
  show ?thesis using assms True by (simp add: round_even_def f Let_def)
next
  case False
  with assms have "of_int (m - 1) \<le> x" "x < of_int (m - 1) + 1" by simp_all
  then have f: "\<lfloor>x\<rfloor> = m - 1" by (rule floor_unique)
  have "1 / 2 < x - of_int (m - 1)" using assms False by simp
  then show ?thesis by (simp add: round_even_def f Let_def)
qed

lemma round_even_of_int [simp]: "round_even (of_int m) = m"
  by (rule round_even_near) simp

lemma dbl_neg: "dbl (- q) = js_neg (dbl q)"
  by (simp add: dbl_def Let_def signed_inf_def sgn_if)

text \<open>
  A number of exponent \<open>e\<close> in the normal range rounds to the multiple \<open>m\<close> of
  \<open>2 powi (e - 52)\<close> that is less than half a unit away.
\<close>

lemma dbl_nearest:
  assumes e: "- 1022 \<le> e" "e \<le> 1022"
      and a: "2 powi e \<le> a" "a < 2 powi (e + 1)"
      and m: "\<bar>a / 2 powi (e - 52) - of_int m\<bar> < 1 / 2"
  shows "dbl a = Fin (of_int m * 2 powi (e - 52))"
proof -
  have "0 < (2::rat) powi e" by simp
  with a have pos: "0 < a" by linarith
  have l: "ilog2 a = e" using a by (rule ilog2_unique)
  have r: "round_even (a / 2 powi (e - 52)) = m" using m by (rule round_even_near)
  have u: "0 < (2::rat) powi (e - 52)" by simp
  have "a / 2 powi (e - 52) < 2 powi (e + 1) / 2 powi (e - 52)"
    using a(2) u by (simp add: divide_strict_right_mono)
  also have "\<dots> = 2 powi 53" by (simp add: power_int_diff [symmetric])
  finally have "of_int m < (2::rat) powi 53 + 1 / 2" using m by linarith
  then have "(of_int m :: rat) < of_int (2 ^ 53 + 1)" by simp
  then have "m < 2 ^ 53 + 1" by (simp only: of_int_less_iff)
  then have "m \<le> 2 ^ 53" by simp
  then have "(of_int m :: rat) \<le> of_int (2 ^ 53)" by (simp only: of_int_le_iff)
  then have "(of_int m :: rat) \<le> 2 powi 53" by simp
  then have "of_int m * 2 powi (e - 52) \<le> (2::rat) powi 53 * 2 powi (e - 52)"
    using u by (intro mult_right_mono) simp_all
  also have "\<dots> = 2 powi (53 + (e - 52))" by (rule p2_add)
  also have "\<dots> \<le> 2 powi 1023" using e by (intro power_int_increasing) simp_all
  also have "\<dots> < 2 powi 1024" by (intro power_int_strict_increasing) simp_all
  finally have nov: "\<not> 2 powi 1024 \<le> of_int m * (2::rat) powi (e - 52)" by simp
  have ne: "a \<noteq> 0" using pos by simp
  have ab: "\<bar>a\<bar> = a" "sgn a = 1" using pos by simp_all
  have mx: "max e (- 1022) = e" using e by simp
  show ?thesis
    unfolding dbl_def Let_def ab l mx r using ne nov by simp
qed

text \<open>An integer of at most 53 bits, scaled by a power of two, is a double.\<close>

lemma dbl_exact:
  assumes n: "\<bar>n\<bar> < 2 ^ 53" and k: "- 1074 \<le> k" "k \<le> 970"
  shows "dbl (of_int n * 2 powi k) = Fin (of_int n * 2 powi k)"
proof (cases "n = 0")
  case True
  then show ?thesis by (simp add: dbl_def)
next
  case False
  define q :: rat where "q = of_int n * 2 powi k"
  define a where "a = \<bar>q\<bar>"
  have a: "a = of_int \<bar>n\<bar> * 2 powi k" by (simp add: a_def q_def abs_mult)
  have pos: "0 < a" using False by (simp add: a)
  have qne: "q \<noteq> 0" using pos by (auto simp: a_def)
  note b = ilog2_bounds [OF pos]
  have "(of_int \<bar>n\<bar> :: rat) < of_int (2 ^ 53)" using n by (simp only: of_int_less_iff)
  then have "(of_int \<bar>n\<bar> :: rat) < 2 powi 53" by simp
  then have "a < 2 powi 53 * 2 powi k" unfolding a by (intro mult_strict_right_mono) simp_all
  also have "\<dots> = 2 powi (53 + k)" by (rule p2_add)
  finally have alt: "a < 2 powi (53 + k)" .
  have "\<not> 53 + k \<le> ilog2 a"
  proof
    assume "53 + k \<le> ilog2 a"
    then have "(2::rat) powi (53 + k) \<le> 2 powi (ilog2 a)" by (intro power_int_increasing) simp_all
    with b alt show False by linarith
  qed
  then have l: "ilog2 a \<le> 52 + k" by linarith
  define e where "e = max (ilog2 a) (- 1022)"
  define j where "j = k - e + 52"
  have j: "0 \<le> j" using l k by (simp add: j_def e_def max_def)
  have "a / 2 powi (e - 52) = of_int \<bar>n\<bar> * (2 powi k / 2 powi (e - 52))" by (simp add: a)
  also have "2 powi k / (2::rat) powi (e - 52) = 2 powi j"
    by (simp add: j_def power_int_diff [symmetric] algebra_simps)
  also have "(2::rat) powi j = of_int (2 ^ nat j)" using j by (simp add: power_int_def)
  finally have d: "a / 2 powi (e - 52) = of_int (\<bar>n\<bar> * 2 ^ nat j)" by simp
  have r: "of_int (round_even (a / 2 powi (e - 52))) * 2 powi (e - 52) = a"
    unfolding d round_even_of_int unfolding d [symmetric] by simp
  have "a < 2 powi (53 + k)" by (rule alt)
  also have "\<dots> \<le> 2 powi 1023" using k by (intro power_int_increasing) simp_all
  also have "\<dots> < 2 powi 1024" by (intro power_int_strict_increasing) simp_all
  finally have nov: "\<not> 2 powi 1024 \<le> a" by simp
  have "dbl q = Fin (sgn q * a)"
    unfolding dbl_def Let_def a_def [symmetric] e_def [symmetric] r using qne nov by simp
  also have "sgn q * a = q" by (simp add: a_def sgn_mult_abs)
  finally show ?thesis by (simp add: q_def)
qed

lemma dbl_of_int:
  assumes "\<bar>n\<bar> \<le> 2 ^ 53"
  shows "dbl (of_int n) = Fin (of_int n)"
proof (cases "\<bar>n\<bar> < 2 ^ 53")
  case True
  from dbl_exact [OF True, of 0] show ?thesis by simp
next
  case False
  with assms have "n = 2 ^ 53 \<or> n = - (2 ^ 53)" by linarith
  then show ?thesis
  proof
    assume n: "n = 2 ^ 53"
    from dbl_exact [of 1 53] show ?thesis by (simp add: n)
  next
    assume n: "n = - (2 ^ 53)"
    from dbl_exact [of "- 1" 53] show ?thesis by (simp add: n)
  qed
qed

lemma dbl_0 [simp]: "dbl 0 = Fin 0"
  by (simp add: dbl_def)

lemma dbl_1 [simp]: "dbl 1 = Fin 1"
  using dbl_of_int [of 1] by simp

lemma dbl_numeral [simp]:
  "numeral w \<le> (2 ^ 53 :: int) \<Longrightarrow> dbl (numeral w) = Fin (numeral w)"
  using dbl_of_int [of "numeral w"] by simp

lemma dbl_neg_numeral [simp]:
  "numeral w \<le> (2 ^ 53 :: int) \<Longrightarrow> dbl (- numeral w) = Fin (- numeral w)"
  using dbl_of_int [of "- numeral w"] by simp

lemma dbl_neg_1 [simp]: "dbl (- 1) = Fin (- 1)"
  using dbl_of_int [of "- 1"] by simp

lemma dbl_halves:
  "numeral w \<le> (2 ^ 53 :: int) \<Longrightarrow> dbl (numeral w / 2) = Fin (numeral w / 2)"
  "numeral w \<le> (2 ^ 53 :: int) \<Longrightarrow> dbl (- (numeral w / 2)) = Fin (- (numeral w / 2))"
  "dbl (1 / 2) = Fin (1 / 2)"
  "dbl (- (1 / 2)) = Fin (- (1 / 2))"
proof -
  have h: "dbl (of_int n / 2) = Fin (of_int n / 2)" if "\<bar>n\<bar> \<le> 2 ^ 53" for n
  proof (cases "\<bar>n\<bar> < 2 ^ 53")
    case True
    from dbl_exact [OF True, of "- 1"] show ?thesis by simp
  next
    case False
    with that have "n = 2 ^ 53 \<or> n = - (2 ^ 53)" by linarith
    then show ?thesis
      using dbl_exact [of 1 52] dbl_exact [of "- 1" 52] by auto
  qed
  show "numeral w \<le> (2 ^ 53 :: int) \<Longrightarrow> dbl (numeral w / 2) = Fin (numeral w / 2)"
    using h [of "numeral w"] by simp
  show "numeral w \<le> (2 ^ 53 :: int) \<Longrightarrow> dbl (- (numeral w / 2)) = Fin (- (numeral w / 2))"
    using h [of "- numeral w"] by simp
  show "dbl (1 / 2) = Fin (1 / 2)" using h [of 1] by simp
  show "dbl (- (1 / 2)) = Fin (- (1 / 2))" using h [of "- 1"] by simp
qed

text \<open>The literal \<^verbatim>\<open>0.01\<close>.\<close>

lemma dbl_hundredth:
  "dbl (1 / 100) = Fin (5764607523034235 / 576460752303423488)"
  using dbl_nearest [of "- 7" "1 / 100" 5764607523034235] by simp

lemma round_even_error: "\<bar>of_int (round_even x) - x\<bar> \<le> 1 / 2"
proof -
  have "of_int \<lfloor>x\<rfloor> \<le> x" "x < of_int \<lfloor>x\<rfloor> + 1" by linarith+
  then show ?thesis by (auto simp: round_even_def Let_def)
qed

lemma dbl_error:
  assumes pos: "0 < a" and e: "- 1022 \<le> ilog2 a" and up: "a < 2 powi 1023"
  shows "\<exists>d. dbl a = Fin d \<and> \<bar>d - a\<bar> \<le> 2 powi (ilog2 a - 53)"
proof -
  define u :: rat where "u = 2 powi (ilog2 a - 52)"
  define m where "m = round_even (a / u)"
  have u: "0 < u" by (simp add: u_def)
  have h: "u / 2 = 2 powi (ilog2 a - 53)"
    using p2_add [of "ilog2 a - 53" 1] by (simp add: u_def)
  have "\<bar>of_int m - a / u\<bar> \<le> 1 / 2" unfolding m_def by (rule round_even_error)
  then have "\<bar>of_int m - a / u\<bar> * u \<le> 1 / 2 * u" using u by (intro mult_right_mono) simp_all
  also have "\<bar>of_int m - a / u\<bar> * u = \<bar>of_int m * u - a\<bar>"
  proof -
    have "(of_int m - a / u) * u = of_int m * u - a" using u by (simp add: field_simps)
    then have "\<bar>of_int m * u - a\<bar> = \<bar>of_int m - a / u\<bar> * \<bar>u\<bar>"
      by (simp only: abs_mult [symmetric])
    then show ?thesis using u by simp
  qed
  finally have err: "\<bar>of_int m * u - a\<bar> \<le> 2 powi (ilog2 a - 53)" using h by simp
  have "2 powi (ilog2 a - 53) \<le> (2::rat) powi (ilog2 a)"
    by (intro power_int_increasing) simp_all
  also have "\<dots> \<le> a" using ilog2_bounds [OF pos] by simp
  finally have "of_int m * u \<le> a + a" using err by linarith
  also have "\<dots> < 2 powi 1023 + 2 powi 1023" using up by linarith
  also have "\<dots> = (2::rat) powi 1024" by simp
  finally have nov: "\<not> 2 powi 1024 \<le> of_int m * u" by simp
  have mx: "max (ilog2 a) (- 1022) = ilog2 a" using e by simp
  have ab: "\<bar>a\<bar> = a" "sgn a = 1" "a \<noteq> 0" using pos by simp_all
  have "dbl a = Fin (of_int m * u)"
    unfolding dbl_def Let_def ab mx u_def [symmetric] m_def [symmetric] using ab(3) nov by simp
  with err show ?thesis by blast
qed

text \<open>
  The quotient of two sizes that are integers below \<open>2 ^ 53\<close>: rounding it does not
  change its ceiling.
\<close>

lemma quotient_ceiling:
  fixes w t :: nat
  assumes w: "w < 2 ^ 53" and t: "0 < t" "t < 2 ^ 53"
  shows "js_ceil (rnd (js_div (Fin (of_nat w)) (Fin (of_nat t))))
           = js_ceil (js_div (Fin (of_nat w)) (Fin (of_nat t)))"
proof (cases "t dvd w")
  case True
  then obtain k where k: "w = t * k" by (auto simp: dvd_def)
  have "k \<le> w" using t by (simp add: k)
  then have kb: "\<bar>int k\<bar> \<le> 2 ^ 53" using w by simp
  have q: "(of_nat w :: rat) / of_nat t = of_int (int k)" using t by (simp add: k)
  show ?thesis using t dbl_of_int [OF kb] by (simp add: q)
next
  case False
  define a :: rat where "a = of_nat w / of_nat t"
  define n where "n = \<lceil>a\<rceil>"
  have tp: "0 < (of_nat t :: rat)" using t by simp
  have wp: "0 < w" using False by (cases w) auto
  have pos: "0 < a" using wp tp by (simp add: a_def)
  have at: "a * of_nat t = of_nat w" using tp by (simp add: a_def)
  have nint: "a \<noteq> of_int z" for z
  proof
    assume "a = of_int z"
    with at have "(of_int (z * int t) :: rat) = of_int (int w)" by simp
    then have zz: "z * int t = int w" by (simp only: of_int_eq_iff)
    then have "int t dvd int w" by (metis dvd_triv_right)
    with False show False by (simp only: int_dvd_int_iff)
  qed
  have n1: "of_int (n - 1) < a" "a < of_int n"
    using nint [of n] ceiling_correct [of a] by (simp_all add: n_def less_le)
  have lo: "of_int (n - 1) + 1 / of_nat t \<le> a"
  proof -
    have "(of_int ((n - 1) * int t) :: rat) < of_int (int w)"
      using n1(1) tp by (simp add: at [symmetric])
    then have "(n - 1) * int t < int w" by (simp only: of_int_less_iff)
    then have "(n - 1) * int t + 1 \<le> int w" by simp
    then have "(of_int ((n - 1) * int t + 1) :: rat) \<le> of_int (int w)"
      by (simp only: of_int_le_iff)
    then have "of_int (n - 1) * of_nat t + 1 \<le> a * (of_nat t :: rat)" by (simp add: at)
    then show ?thesis using tp by (simp add: field_simps)
  qed
  have hi: "a + 1 / of_nat t \<le> of_int n"
  proof -
    have "(of_int (int w) :: rat) < of_int (n * int t)"
      using n1(2) tp by (simp add: at [symmetric])
    then have "int w < n * int t" by (simp only: of_int_less_iff)
    then have "int w + 1 \<le> n * int t" by simp
    then have "(of_int (int w + 1) :: rat) \<le> of_int (n * int t)"
      by (simp only: of_int_le_iff)
    then have "a * (of_nat t :: rat) + 1 \<le> of_int n * of_nat t" by (simp add: at)
    then show ?thesis using tp by (simp add: field_simps)
  qed
  have t53: "(of_nat t :: rat) < 2 powi 53"
  proof -
    have "(of_nat t :: rat) < of_nat (2 ^ 53)" using t(2) by (simp only: of_nat_less_iff)
    then show ?thesis by simp
  qed
  have w53: "(of_nat w :: rat) < 2 powi 53"
  proof -
    have "(of_nat w :: rat) < of_nat (2 ^ 53)" using w by (simp only: of_nat_less_iff)
    then show ?thesis by simp
  qed
  have a53: "a * of_nat t < 2 powi 53" using w53 by (simp add: at)
  have "1 \<le> (of_nat w :: rat)" using wp by simp
  then have alo: "1 / of_nat t \<le> a" using tp by (simp add: a_def divide_right_mono)
  have "(2::rat) powi (- 53) < 1 / of_nat t"
  proof -
    have "(2::rat) powi (- 53) = 1 / 2 powi 53" by (simp add: power_int_minus_divide)
    also have "\<dots> < 1 / of_nat t" using t53 tp by (intro divide_strict_left_mono) simp_all
    finally show ?thesis .
  qed
  with alo have "2 powi (- 53) < a" by linarith
  have e: "- 1022 \<le> ilog2 a"
  proof (rule ccontr)
    assume "\<not> - 1022 \<le> ilog2 a"
    then have "ilog2 a + 1 \<le> - 53" by simp
    then have "(2::rat) powi (ilog2 a + 1) \<le> 2 powi (- 53)" by (intro power_int_increasing) simp_all
    with ilog2_bounds [OF pos] \<open>2 powi (- 53) < a\<close> show False by linarith
  qed
  have "(1::rat) \<le> of_nat t" using t(1) by simp
  then have "of_nat w / of_nat t \<le> (of_nat w :: rat) / 1"
    by (intro divide_left_mono) simp_all
  then have "a \<le> of_nat w" by (simp add: a_def)
  also have "\<dots> < 2 powi 53" by (rule w53)
  also have "\<dots> \<le> 2 powi 1023" by (intro power_int_increasing) simp_all
  finally have up: "a < 2 powi 1023" .
  from dbl_error [OF pos e up] obtain d where d: "dbl a = Fin d"
    and err: "\<bar>d - a\<bar> \<le> 2 powi (ilog2 a - 53)" by blast
  have "2 powi (ilog2 a - 53) * (2::rat) powi 53 = 2 powi (ilog2 a)"
    using p2_add [of "ilog2 a - 53" 53] by simp
  then have "2 powi (ilog2 a - 53) * (2::rat) powi 53 \<le> a" using ilog2_bounds [OF pos] by simp
  then have "2 powi (ilog2 a - 53) * (2::rat) powi 53 * of_nat t \<le> a * of_nat t"
    using tp by (intro mult_right_mono) simp_all
  also have "\<dots> < 2 powi 53" by (rule a53)
  finally have "2 powi (ilog2 a - 53) * of_nat t * (2::rat) powi 53 < 1 * 2 powi 53"
    by (simp add: mult_ac)
  then have "2 powi (ilog2 a - 53) * (of_nat t :: rat) < 1"
    by (rule mult_right_less_imp_less) simp
  then have small: "2 powi (ilog2 a - 53) < 1 / (of_nat t :: rat)"
    using tp by (simp add: pos_less_divide_eq)
  have "of_int (n - 1) < d" "d < of_int n" using err small lo hi by linarith+
  then have "\<lceil>d\<rceil> = n" by (intro ceiling_unique) simp_all
  then show ?thesis using t d by (simp add: a_def [symmetric] n_def)
qed

lemma rnd_of_int:
  "\<bar>n\<bar> \<le> 2 ^ 53 \<Longrightarrow> rnd (Fin (of_int n)) = Fin (of_int n)"
  by (simp add: dbl_of_int)

subsection \<open>Shared facts\<close>

lemmas tag_ids = NewSubFileType_def ImageWidth_def ImageHeight_def Compression_def
  StripOffsets_def StripByteCounts_def TileWidth_def TileHeight_def TileOffsets_def
  TileByteCounts_def JPEGTables_def ModelPixelScale_def ModelTransformation_def
  GeoKeyDirectory_def GeoDoubleParams_def GeoAsciiParams_def GTCitationGeoKey_def



subsection \<open>Tile bounds\<close>




lemma four_tiles_values:
  "value_of four_tiles ImageWidth = Num (Fin 512)"
  "value_of four_tiles ImageHeight = Num (Fin 512)"
  "value_of four_tiles TileWidth = Num (Fin 256)"
  "value_of four_tiles TileHeight = Num (Fin 256)"
  "value_of four_tiles Compression = Num (Fin 1)"
  "tags four_tiles TileOffsets = Some (array_tag TileOffsets [Fin 16, Fin 32, Fin 48, Fin 64])"
  "tags four_tiles TileByteCounts =
     Some (array_tag TileByteCounts [Fin 16, Fin 16, Fin 16, Fin 16])"
  by (simp_all add: four_tiles_def with_tag_def tiled_image_def value_of_def inline_tag_def
        array_tag_def tag_ids)

subsection \<open>The bounds check of \<^verbatim>\<open>getOffset\<close>\<close>

lemma external_not_bounds [simp]:
  "external r \<noteq> Inl (TagIndexOutOfBounds a b)"
  by (simp add: external_def split: sum.splits)

lemma getOffset_cases:
  "await1 (getOffset ext tiff (Some x) index) = Inl (TagIndexOutOfBounds a b)
   \<longleftrightarrow> (js_gt index (Fin (of_nat (tag_count x))) \<or> js_lt index (Fin 0))
       \<and> a = tag_id x \<and> b = index"
  by (auto simp: getOffset_def await1_def)

text \<open>
  C10. A lookup \<^verbatim>\<open>getOffset(tiff, x, i)\<close> raises its out-of-bounds error exactly when
  \<open>i\<close> is negative or strictly greater than the tag's count. An index equal to the
  count passes the check, and \<^verbatim>\<open>getTileSize(count)\<close> does not raise that error, with
  the tile leader or without it (where the count of \<^verbatim>\<open>TileByteCounts\<close>, looked up at the
  same index, is not smaller than that of \<^verbatim>\<open>TileOffsets\<close>).
\<close>

theorem getOffset_bounds:
  assumes t: "tags img TileOffsets = Some t"
      and bc: "\<forall>bc. tags img TileByteCounts = Some bc \<longrightarrow> tag_count t \<le> tag_count bc"
  shows "((\<exists>a b. await1 (getOffset ext tiff (Some x) (Fin i)) = Inl (TagIndexOutOfBounds a b))
            = (i < 0 \<or> of_nat (tag_count x) < i))
         \<and> (\<forall>a b. await1 (getOffset ext tiff (Some x) (Fin (of_nat (tag_count x))))
                     \<noteq> Inl (TagIndexOutOfBounds a b))
         \<and> (\<forall>a b. fst (getTileSize ext tiff img (Fin (of_nat (tag_count t))))
                     \<noteq> Inl (TagIndexOutOfBounds a b))"
proof (intro conjI allI)
  show "(\<exists>a b. await1 (getOffset ext tiff (Some x) (Fin i)) = Inl (TagIndexOutOfBounds a b))
            = (i < 0 \<or> of_nat (tag_count x) < i)"
    by (auto simp: getOffset_cases js_gt_def)
next
  fix a b
  show "await1 (getOffset ext tiff (Some x) (Fin (of_nat (tag_count x))))
          \<noteq> Inl (TagIndexOutOfBounds a b)"
    by (simp add: getOffset_cases js_gt_def)
next
  fix a b
  have o: "await1 (getOffset ext tiff (Some t) (Fin (of_nat (tag_count t))))
             \<noteq> Inl (TagIndexOutOfBounds a b)"
    by (simp add: getOffset_cases js_gt_def)
  show "fst (getTileSize ext tiff img (Fin (of_nat (tag_count t))))
          \<noteq> Inl (TagIndexOutOfBounds a b)"
  proof (cases "truthy (tileLeaderByteSize tiff)")
    case True
    with o show ?thesis
      by (auto simp: getTileSize_def tileOffset_def t Let_def split: sum.splits)
  next
    case False
    show ?thesis
    proof (cases "tags img TileByteCounts")
      case None
      with False show ?thesis by (simp add: getTileSize_def)
    next
      case (Some bc)
      with bc have le: "tag_count t \<le> tag_count bc" by simp
      then have o2: "await1 (getOffset ext tiff (Some bc) (Fin (of_nat (tag_count t))))
                       \<noteq> Inl (TagIndexOutOfBounds a b)"
        by (simp add: getOffset_cases js_gt_def)
      from o o2 False Some show ?thesis
        by (auto simp: getTileSize_def tileOffset_def t await_all2_def await1_def
                 split: sum.splits)
    qed
  qed
qed

text \<open>
  The theorem at the image of four tiles: index 4, the count, is read as
  \<^verbatim>\<open>undefined\<close> without an error, index 5 raises.
\<close>

theorem getOffset_bounds_witness:
  "await1 (getOffset example_ext (example_reader [] [four_tiles])
      (Some (array_tag TileOffsets [Fin 16, Fin 32, Fin 48, Fin 64])) (Fin 4)) = Inr Undefined
   \<and> await1 (getOffset example_ext (example_reader [] [four_tiles])
      (Some (array_tag TileOffsets [Fin 16, Fin 32, Fin 48, Fin 64])) (Fin 5))
       = Inl (TagIndexOutOfBounds TileOffsets (Fin 5))
   \<and> getTileSize example_ext (example_reader [] [four_tiles]) four_tiles (Fin 4)
       = (Inr \<lparr>tile_offset = Undefined, imageSize = Undefined\<rparr>, [])"
  using getOffset_bounds [of four_tiles "array_tag TileOffsets [Fin 16, Fin 32, Fin 48, Fin 64]"
          example_ext "example_reader [] [four_tiles]"
          "array_tag TileOffsets [Fin 16, Fin 32, Fin 48, Fin 64]" 5]
  by (simp add: four_tiles_values getTileSize_def getOffset_def await1_def await_all2_def
        tileOffset_def example_reader_def array_tag_def js_gt_def nullish_def)

subsection \<open>\<^verbatim>\<open>hasTile\<close>\<close>

text \<open>
  \<^verbatim>\<open>hasTile\<close> answers false, without an error and without a request, for a coordinate
  at or beyond the tile counts; inside them it is \<^verbatim>\<open>getTileSize(idx).offset > 0\<close>.
\<close>

lemma hasTile_beyond:
  fixes img
  defines "nx \<equiv> js_ceil (rnd (js_div (ToNumber (width (image_size img)))
                                      (ToNumber (width (tileSize img)))))"
  defines "ny \<equiv> js_ceil (rnd (js_div (ToNumber (height (image_size img)))
                                      (ToNumber (height (tileSize img)))))"
  assumes "js_ge x nx \<or> js_ge y ny"
  shows "hasTile ext tiff img x y = (Inr False, [])"
  using assms by (simp add: hasTile_def Let_def)

lemma hasTile_inside:
  fixes img
  defines "nx \<equiv> js_ceil (rnd (js_div (ToNumber (width (image_size img)))
                                      (ToNumber (width (tileSize img)))))"
  defines "ny \<equiv> js_ceil (rnd (js_div (ToNumber (height (image_size img)))
                                      (ToNumber (height (tileSize img)))))"
  assumes "\<not> js_ge x nx" "\<not> js_ge y ny"
  shows "fst (hasTile ext tiff img x y) =
           (case fst (getTileSize ext tiff img (rnd (js_add (rnd (js_mul y nx)) x))) of
              Inl err \<Rightarrow> Inl err
            | Inr ret \<Rightarrow> Inr (js_gt (ToNumber (tile_offset ret)) (Fin 0)))"
  using assms by (simp add: hasTile_def Let_def split: prod.splits sum.splits)

text \<open>
  C5 at a negative coordinate. The image of four tiles has the tiles (0..1, 0..1), so
  (-1, 0) and (-1, 1) are out of range. The guard of \<^verbatim>\<open>hasTile\<close> tests only
  \<^verbatim>\<open>x >= nxTiles || y >= nyTiles\<close>: \<^verbatim>\<open>hasTile(-1, 0)\<close> looks up index -1 and raises the
  out-of-bounds error of \<^verbatim>\<open>getOffset\<close>, and \<^verbatim>\<open>hasTile(-1, 1)\<close> looks up index 1, the
  tile (1, 0), and answers true.
\<close>

theorem hasTile_negative_coordinate:
  "hasTile example_ext (example_reader [] [four_tiles]) four_tiles (Fin (- 1)) (Fin 0)
     = (Inl (TagIndexOutOfBounds TileOffsets (Fin (- 1))), [])
   \<and> hasTile example_ext (example_reader [] [four_tiles]) four_tiles (Fin (- 1)) (Fin 1)
     = (Inr True, [])"
  by (simp add: hasTile_def image_size_def tileSize_def four_tiles_values Let_def js_ge_def
        getTileSize_def example_reader_def tileOffset_def getOffset_def await_all2_def
        array_tag_def js_gt_def nullish_def)

subsection \<open>The tile index\<close>

lemma external_not_tile_range [simp]:
  "external r \<noteq> Inl (TileOutsideTileRange a b)"
  by (simp add: external_def split: sum.splits)

lemma getOffset_not_tile_range:
  "getOffset ext tiff x i \<noteq> Inl (TileOutsideTileRange a b)"
  "getOffset ext tiff x i \<noteq> Inr (Inl (TileOutsideTileRange a b))"
  by (auto simp: getOffset_def split: option.splits)

lemma getTileSize_not_tile_range:
  "fst (getTileSize ext tiff img i) \<noteq> Inl (TileOutsideTileRange a b)"
  using getOffset_not_tile_range [of ext tiff _ i a b]
  by (auto simp: getTileSize_def tileOffset_def await1_def await_all2_def Let_def
           split: option.splits sum.splits)

lemma getTileSize_not_tile_range_pair:
  "getTileSize ext tiff img i \<noteq> (Inl (TileOutsideTileRange a b), r)"
  using getTileSize_not_tile_range [of ext tiff img i a b] by auto

lemma getJpegHeader_not_tile_range:
  "getJpegHeader img bytes \<noteq> Inl (TileOutsideTileRange a b)"
  by (auto simp: getJpegHeader_def new_Uint8Array_def Uint8Array_set_def Let_def
           split: jsval.splits sum.splits if_splits)

lemma getBytes_not_tile_range:
  "fst (getBytes ext tiff img off n) \<noteq> Inl (TileOutsideTileRange a b)"
  using getJpegHeader_not_tile_range [of img _ a b]
  by (auto simp: getBytes_def split: option.splits sum.splits)

lemma getBytes_not_tile_range_pair:
  "getBytes ext tiff img off n \<noteq> (Inl (TileOutsideTileRange a b), r)"
  using getBytes_not_tile_range [of ext tiff img off n a b] by auto

lemma index_upper:
  fixes nx ny x y :: int
  assumes "0 \<le> x" "x < nx" "0 \<le> y" "y < ny"
  shows "y * nx + x < nx * ny"
proof -
  have "y * nx + x < y * nx + nx" using assms by simp
  also have "\<dots> = (y + 1) * nx" by (simp add: algebra_simps)
  also have "\<dots> \<le> ny * nx" using assms by (intro mult_right_mono) simp_all
  finally show ?thesis by (simp add: mult.commute)
qed

lemma index_div:
  fixes nx ny i :: int
  assumes "0 \<le> i" "i < nx * ny" "0 \<le> nx"
  shows "0 < nx \<and> 0 \<le> i div nx \<and> i div nx < ny"
proof -
  have nx: "0 < nx" using assms by (metis less_le mult_zero_left not_less)
  have "i div nx < ny"
  proof (rule ccontr)
    assume "\<not> i div nx < ny"
    then have "ny \<le> i div nx" by simp
    then have "ny * nx \<le> (i div nx) * nx" using nx by (intro mult_right_mono) simp_all
    moreover have "0 \<le> i mod nx" using nx by simp
    moreover have "(i div nx) * nx + i mod nx = i" by simp
    ultimately have "ny * nx \<le> i" by linarith
    then show False using assms by (simp add: mult.commute)
  qed
  moreover have "0 \<le> i div nx" using assms nx by (simp add: pos_imp_zdiv_nonneg_iff)
  ultimately show ?thesis using nx by simp
qed

lemma index_bij:
  fixes nx ny :: int
  assumes "0 \<le> nx" "0 \<le> ny"
  shows "bij_betw (\<lambda>(x, y). y * nx + x) ({0..<nx} \<times> {0..<ny}) {0..<nx * ny}"
proof (rule bij_betw_byWitness [where f' = "\<lambda>i. (i mod nx, i div nx)"])
  show "\<forall>a\<in>{0..<nx} \<times> {0..<ny}. (case case a of (x, y) \<Rightarrow> y * nx + x of i \<Rightarrow> (i mod nx, i div nx)) = a"
    by auto
  show "\<forall>i\<in>{0..<nx * ny}. (case (i mod nx, i div nx) of (x, y) \<Rightarrow> y * nx + x) = i"
    by auto
  show "(\<lambda>(x, y). y * nx + x) ` ({0..<nx} \<times> {0..<ny}) \<subseteq> {0..<nx * ny}"
    using assms by (auto simp: index_upper)
  show "(\<lambda>i. (i mod nx, i div nx)) ` {0..<nx * ny} \<subseteq> {0..<nx} \<times> {0..<ny}"
    using assms index_div [of _ nx ny] by auto
qed

text \<open>
  The index and the number of tiles as the source computes them are the exact ones as
  long as there are at most \<open>2 ^ 53\<close> tiles.
\<close>

lemma tile_index_exact:
  fixes nx ny x y :: int
  assumes "0 \<le> x" "x < nx" "0 \<le> y" "y < ny" "nx * ny \<le> 2 ^ 53"
  shows "rnd (js_add (rnd (js_mul (Fin (of_int y)) (Fin (of_int nx)))) (Fin (of_int x)))
           = Fin (of_int (y * nx + x))"
    and "rnd (js_mul (Fin (of_int nx)) (Fin (of_int ny))) = Fin (of_int (nx * ny))"
proof -
  have lt: "y * nx + x < nx * ny" by (rule index_upper [OF assms(1-4)])
  have nx: "0 < nx" using assms by linarith
  have a: "0 \<le> y * nx" using assms nx by simp
  have b: "\<bar>y * nx\<bar> \<le> 2 ^ 53" using a lt assms by linarith
  have c: "\<bar>y * nx + x\<bar> \<le> 2 ^ 53" using a lt assms by linarith
  have d: "\<bar>nx * ny\<bar> \<le> 2 ^ 53" using a lt assms by linarith
  have "rnd (js_mul (Fin (of_int y)) (Fin (of_int nx))) = Fin (of_int (y * nx))"
    using rnd_of_int [OF b] by simp
  then show "rnd (js_add (rnd (js_mul (Fin (of_int y)) (Fin (of_int nx)))) (Fin (of_int x)))
           = Fin (of_int (y * nx + x))"
    using rnd_of_int [OF c] by simp
  show "rnd (js_mul (Fin (of_int nx)) (Fin (of_int ny))) = Fin (of_int (nx * ny))"
    using rnd_of_int [OF d] by simp
qed

text \<open>
  \<^verbatim>\<open>getTile\<close> at an in-range tile of an image whose sizes are integers below \<open>2 ^ 53\<close>
  and that has at most \<open>2 ^ 53\<close> tiles: after the test of the compression, both
  guards pass and the tile is the one recorded at the index \<open>y * nxTiles + x\<close>.
\<close>

lemma getTile_in_range:
  fixes w h tw th :: nat
  assumes iw: "value_of img ImageWidth = Num (Fin (of_nat w))"
      and ih: "value_of img ImageHeight = Num (Fin (of_nat h))"
      and tw: "value_of img TileWidth = Num (Fin (of_nat tw))"
      and th: "value_of img TileHeight = Num (Fin (of_nat th))"
      and sz: "w < 2 ^ 53" "h < 2 ^ 53" "0 < tw" "tw < 2 ^ 53" "0 < th" "th < 2 ^ 53"
      and x: "0 \<le> x" "x < \<lceil>of_nat w / of_nat tw :: rat\<rceil>"
      and y: "0 \<le> y" "y < \<lceil>of_nat h / of_nat th :: rat\<rceil>"
      and small: "\<lceil>of_nat w / of_nat tw :: rat\<rceil> * \<lceil>of_nat h / of_nat th :: rat\<rceil> \<le> 2 ^ 53"
  shows "getTile ext tiff img (Fin (of_int x)) (Fin (of_int y)) =
           (if compression ext img = None
            then (Inl (UnsupportedCompression (value_of img Compression)), [])
            else
              (case getTileSize ext tiff img
                      (Fin (of_int (y * \<lceil>of_nat w / of_nat tw :: rat\<rceil> + x))) of
                 (Inl err, reqs) \<Rightarrow> (Inl err, reqs)
               | (Inr ts, reqs) \<Rightarrow>
                   (case getBytes ext tiff img (tile_offset ts) (imageSize ts) of
                      (r, reqs') \<Rightarrow> (r, reqs @ reqs'))))"
proof -
  define nx ny where "nx = \<lceil>of_nat w / of_nat tw :: rat\<rceil>"
    and "ny = \<lceil>of_nat h / of_nat th :: rat\<rceil>"
  note r = x [folded nx_def] y [folded ny_def]
  note e = tile_index_exact [OF r small [folded nx_def ny_def]]
  have lt: "y * nx + x < nx * ny" by (rule index_upper [OF r])
  have g: "\<not> js_ge (Fin (of_int (y * nx + x))) (Fin (of_int (nx * ny)))"
    using lt unfolding js_ge_def js_le.simps of_int_le_iff by simp
  have cx: "js_ceil (rnd (js_div (Fin (of_nat w)) (Fin (of_nat tw)))) = Fin (of_int nx)"
    unfolding quotient_ceiling [OF sz(1,3,4)] using sz by (simp add: nx_def)
  have cy: "js_ceil (rnd (js_div (Fin (of_nat h)) (Fin (of_nat th)))) = Fin (of_int ny)"
    unfolding quotient_ceiling [OF sz(2,5,6)] using sz by (simp add: ny_def)
  have gx: "\<not> js_ge (Fin (of_int x)) (Fin (of_int nx))"
    using r unfolding js_ge_def js_le.simps of_int_le_iff by simp
  have gy: "\<not> js_ge (Fin (of_int y)) (Fin (of_int ny))"
    using r unfolding js_ge_def js_le.simps of_int_le_iff by simp
  have "getTile ext tiff img (Fin (of_int x)) (Fin (of_int y)) =
           (if compression ext img = None
            then (Inl (UnsupportedCompression (value_of img Compression)), [])
            else
              (case getTileSize ext tiff img (Fin (of_int (y * nx + x))) of
                 (Inl err, reqs) \<Rightarrow> (Inl err, reqs)
               | (Inr ts, reqs) \<Rightarrow>
                   (case getBytes ext tiff img (tile_offset ts) (imageSize ts) of
                      (r, reqs') \<Rightarrow> (r, reqs @ reqs'))))"
    by (simp only: getTile_def image_size_def tileSize_def Let_def Size.simps iw ih tw th
          ToNumber.simps cx cy e gx gy g if_False simp_thms)
  then show ?thesis by (simp only: nx_def)
qed

text \<open>
  C9 (as amended). For a tiled image (sizes that are integers below \<open>2 ^ 53\<close>, positive
  tile sizes) with \<open>nxTiles = \<lceil>width / tileWidth\<rceil>\<close> and
  \<open>nyTiles = \<lceil>height / tileHeight\<rceil>\<close> and at most \<open>2 ^ 53\<close> tiles, the index
  \<open>y * nxTiles + x\<close> is a bijection from \<open>[0, nxTiles) \<times> [0, nyTiles)\<close> onto
  \<open>[0, nxTiles * nyTiles)\<close>, and it is the index that \<^verbatim>\<open>getTile\<close> uses: for an
  in-range \<open>(x, y)\<close> \<^verbatim>\<open>getTile\<close>, after the test of the compression, passes both its
  guards and returns what \<^verbatim>\<open>getTileSize\<close> and \<^verbatim>\<open>getBytes\<close> give for the tile
  recorded at that index; it never raises the error of its guard
  \<^verbatim>\<open>idx >= totalTiles\<close>.
\<close>

theorem tile_index_bijection:
  fixes w h tw th :: nat
  assumes iw: "value_of img ImageWidth = Num (Fin (of_nat w))"
      and ih: "value_of img ImageHeight = Num (Fin (of_nat h))"
      and tw: "value_of img TileWidth = Num (Fin (of_nat tw))"
      and th: "value_of img TileHeight = Num (Fin (of_nat th))"
      and sz: "w < 2 ^ 53" "h < 2 ^ 53" "0 < tw" "tw < 2 ^ 53" "0 < th" "th < 2 ^ 53"
      and small: "\<lceil>of_nat w / of_nat tw :: rat\<rceil> * \<lceil>of_nat h / of_nat th :: rat\<rceil> \<le> 2 ^ 53"
  shows "tileCount img = \<lparr>count_x = Fin (of_int \<lceil>of_nat w / of_nat tw :: rat\<rceil>),
                          count_y = Fin (of_int \<lceil>of_nat h / of_nat th :: rat\<rceil>)\<rparr>
     \<and> bij_betw (\<lambda>(x, y). y * \<lceil>of_nat w / of_nat tw :: rat\<rceil> + x)
          ({0..<\<lceil>of_nat w / of_nat tw :: rat\<rceil>} \<times> {0..<\<lceil>of_nat h / of_nat th :: rat\<rceil>})
          {0..<\<lceil>of_nat w / of_nat tw :: rat\<rceil> * \<lceil>of_nat h / of_nat th :: rat\<rceil>}
     \<and> (\<forall>x y. 0 \<le> x \<and> x < \<lceil>of_nat w / of_nat tw :: rat\<rceil>
               \<and> 0 \<le> y \<and> y < \<lceil>of_nat h / of_nat th :: rat\<rceil> \<longrightarrow>
           getTile ext tiff img (Fin (of_int x)) (Fin (of_int y)) =
             (if compression ext img = None
              then (Inl (UnsupportedCompression (value_of img Compression)), [])
              else
                (case getTileSize ext tiff img
                        (Fin (of_int (y * \<lceil>of_nat w / of_nat tw :: rat\<rceil> + x))) of
                   (Inl err, reqs) \<Rightarrow> (Inl err, reqs)
                 | (Inr ts, reqs) \<Rightarrow>
                     (case getBytes ext tiff img (tile_offset ts) (imageSize ts) of
                        (r, reqs') \<Rightarrow> (r, reqs @ reqs'))))
           \<and> (\<forall>a b. fst (getTile ext tiff img (Fin (of_int x)) (Fin (of_int y)))
                        \<noteq> Inl (TileOutsideTileRange a b)))"
proof (intro conjI allI impI)
  show "tileCount img = \<lparr>count_x = Fin (of_int \<lceil>of_nat w / of_nat tw :: rat\<rceil>),
                          count_y = Fin (of_int \<lceil>of_nat h / of_nat th :: rat\<rceil>)\<rparr>"
    using sz by (simp add: tileCount_def image_size_def tileSize_def iw ih tw th Let_def)
  have "0 \<le> (of_nat w / of_nat tw :: rat)" "0 \<le> (of_nat h / of_nat th :: rat)" by simp_all
  then have nn: "0 \<le> \<lceil>of_nat w / of_nat tw :: rat\<rceil>" "0 \<le> \<lceil>of_nat h / of_nat th :: rat\<rceil>"
    by linarith+
  show "bij_betw (\<lambda>(x, y). y * \<lceil>of_nat w / of_nat tw :: rat\<rceil> + x)
          ({0..<\<lceil>of_nat w / of_nat tw :: rat\<rceil>} \<times> {0..<\<lceil>of_nat h / of_nat th :: rat\<rceil>})
          {0..<\<lceil>of_nat w / of_nat tw :: rat\<rceil> * \<lceil>of_nat h / of_nat th :: rat\<rceil>}"
    by (rule index_bij [OF nn])
next
  fix x y :: int
  assume r: "0 \<le> x \<and> x < \<lceil>of_nat w / of_nat tw :: rat\<rceil>
             \<and> 0 \<le> y \<and> y < \<lceil>of_nat h / of_nat th :: rat\<rceil>"
  then have r': "0 \<le> x" "x < \<lceil>of_nat w / of_nat tw :: rat\<rceil>"
    "0 \<le> y" "y < \<lceil>of_nat h / of_nat th :: rat\<rceil>" by simp_all
  note g = getTile_in_range [OF iw ih tw th sz r' small, of ext tiff]
  show "getTile ext tiff img (Fin (of_int x)) (Fin (of_int y)) =
             (if compression ext img = None
              then (Inl (UnsupportedCompression (value_of img Compression)), [])
              else
                (case getTileSize ext tiff img
                        (Fin (of_int (y * \<lceil>of_nat w / of_nat tw :: rat\<rceil> + x))) of
                   (Inl err, reqs) \<Rightarrow> (Inl err, reqs)
                 | (Inr ts, reqs) \<Rightarrow>
                     (case getBytes ext tiff img (tile_offset ts) (imageSize ts) of
                        (r, reqs') \<Rightarrow> (r, reqs @ reqs'))))"
    by (rule g)
  fix a b
  show "fst (getTile ext tiff img (Fin (of_int x)) (Fin (of_int y)))
          \<noteq> Inl (TileOutsideTileRange a b)"
    unfolding g
    by (auto simp: getTileSize_not_tile_range_pair getBytes_not_tile_range_pair
             split: prod.splits sum.splits)
qed

text \<open>The theorem at the image of four tiles, and its tile (1, 1).\<close>

theorem tile_index_bijection_witness:
  "tileCount four_tiles = \<lparr>count_x = Fin 2, count_y = Fin 2\<rparr>
   \<and> bij_betw (\<lambda>(x, y). y * 2 + x) ({0..<2} \<times> {0..<2}) {0..<4::int}
   \<and> getTile example_ext (example_reader (replicate 100 7) [four_tiles]) four_tiles
        (Fin 1) (Fin 1)
      = (Inr (Some (''application/octet-stream'', replicate 16 7)),
         [(Num (Fin 64), Num (Fin 16))])"
proof -
  let ?tiff = "example_reader (replicate 100 7) [four_tiles]"
  have c: "\<lceil>of_nat 512 / of_nat 256 :: rat\<rceil> = 2" by simp
  have s: "\<lceil>of_nat 512 / of_nat 256 :: rat\<rceil> * \<lceil>of_nat 512 / of_nat 256 :: rat\<rceil> \<le> 2 ^ 53"
    by simp
  have p: "(512::nat) < 2 ^ 53" "(0::nat) < 256" "(256::nat) < 2 ^ 53" by simp_all
  have v: "value_of four_tiles ImageWidth = Num (Fin (of_nat 512))"
    "value_of four_tiles ImageHeight = Num (Fin (of_nat 512))"
    "value_of four_tiles TileWidth = Num (Fin (of_nat 256))"
    "value_of four_tiles TileHeight = Num (Fin (of_nat 256))"
    by (simp_all add: four_tiles_values)
  note t = tile_index_bijection [of four_tiles 512 512 256 256 example_ext ?tiff,
      OF v p(1) p(1) p(2) p(3) p(2) p(3) s, unfolded c]
  have p1: "tileCount four_tiles = \<lparr>count_x = Fin 2, count_y = Fin 2\<rparr>"
    using t [THEN conjunct1] by simp
  have p2: "bij_betw (\<lambda>(x, y). y * 2 + x) ({0..<2} \<times> {0..<2}) {0..<4::int}"
    using t [THEN conjunct2, THEN conjunct1] by simp
  have g: "getTile example_ext ?tiff four_tiles (Fin 1) (Fin 1) =
      (if compression example_ext four_tiles = None
       then (Inl (UnsupportedCompression (value_of four_tiles Compression)), [])
       else
         (case getTileSize example_ext ?tiff four_tiles (Fin 3) of
            (Inl err, reqs) \<Rightarrow> (Inl err, reqs)
          | (Inr ts, reqs) \<Rightarrow>
              (case getBytes example_ext ?tiff four_tiles (tile_offset ts) (imageSize ts) of
                 (r, reqs') \<Rightarrow> (r, reqs @ reqs'))))"
    using t [THEN conjunct2, THEN conjunct2, rule_format, of 1 1] by simp
  have p3: "getTile example_ext ?tiff four_tiles (Fin 1) (Fin 1)
      = (Inr (Some (''application/octet-stream'', replicate 16 7)),
         [(Num (Fin 64), Num (Fin 16))])"
    unfolding g
    by (simp add: getTileSize_def getBytes_def getOffset_def tileOffset_def await_all2_def
          four_tiles_values compression_def example_ext_def example_reader_def array_tag_def
          external_def js_gt_def js_eq_def nullish_def Let_def)
  show ?thesis using p1 p2 p3 by blast
qed

lemma huge_tiles_values:
  "value_of huge_tiles ImageWidth = Num (Fin 2147483664)"
  "value_of huge_tiles ImageHeight = Num (Fin 2147483664)"
  "value_of huge_tiles TileWidth = Num (Fin 16)"
  "value_of huge_tiles TileHeight = Num (Fin 16)"
  "value_of huge_tiles Compression = Num (Fin 1)"
  "tags huge_tiles TileOffsets =
     Some \<lparr>tag_type = Offset, tag_id = TileOffsets, tag_count = 18014398777917441,
           tag_value = Undefined, isLoaded = False\<rparr>"
  by (simp_all add: huge_tiles_def with_tag_def tiled_image_def value_of_def inline_tag_def
        tag_ids)

lemma huge_index_doubles:
  "dbl 18014398643699712 = Fin 18014398643699712"
  "dbl 18014398777917439 = Fin 18014398777917440"
  "dbl 18014398777917440 = Fin 18014398777917440"
  "dbl 18014398777917441 = Fin 18014398777917440"
  using dbl_exact [of 134217729 27]
    dbl_nearest [of 54 18014398777917439 4503599694479360]
    dbl_exact [of 67108865 28]
    dbl_nearest [of 54 18014398777917441 4503599694479360]
  by simp_all

lemma getTile_huge_tiles:
  "getTile ext tiff huge_tiles (Fin 134217728) (Fin 134217728)
     = (if compression ext huge_tiles = None
        then (Inl (UnsupportedCompression (Num (Fin 1))), [])
        else (Inl (TileOutsideTileRange (Fin 18014398777917440) (Fin 18014398777917440)), []))"
  by (simp add: getTile_def image_size_def tileSize_def huge_tiles_values huge_index_doubles
        js_ge_def Let_def)

text \<open>
  C9 as stated fails for an image of more than \<open>2 ^ 53\<close> tiles. The image of
  134217729 x 134217729 tiles has the in-range tiles (134217728, 134217728), the last
  one, and (134217727, 134217728) before it. The number of tiles 18014398777917441 is
  not a double and \<^verbatim>\<open>nxTiles * nyTiles\<close> is 18014398777917440, which is the index of
  the last tile: the guard \<^verbatim>\<open>idx >= totalTiles\<close> raises its error. The index
  18014398777917439 of the tile before it is not a double either and
  \<^verbatim>\<open>y * nxTiles + x\<close> is 18014398777917440 again: two tiles of one index, and the
  same error.
\<close>

theorem tile_index_rounding_counterexample:
  "tileCount huge_tiles = \<lparr>count_x = Fin 134217729, count_y = Fin 134217729\<rparr>
   \<and> getTile example_ext (example_reader [] [huge_tiles]) huge_tiles
        (Fin 134217728) (Fin 134217728)
      = (Inl (TileOutsideTileRange (Fin 18014398777917440) (Fin 18014398777917440)), [])
   \<and> getTile example_ext (example_reader [] [huge_tiles]) huge_tiles
        (Fin 134217727) (Fin 134217728)
      = (Inl (TileOutsideTileRange (Fin 18014398777917440) (Fin 18014398777917440)), [])"
  by (simp add: getTile_def tileCount_def image_size_def tileSize_def huge_tiles_values
        huge_index_doubles compression_def example_ext_def js_ge_def Let_def)

subsection \<open>JPEG tables\<close>

lemma trunc_of_int [simp]: "trunc (of_int k) = k"
  by (simp add: trunc_def)

lemma trunc_numeral [simp]: "trunc (numeral k) = numeral k"
  using trunc_of_int [of "numeral k"] by simp

lemma js_slice_drop_last2:
  "js_slice xs (Fin 0) (Fin (of_nat (length xs) - 2)) = take (length xs - 2) xs"
proof -
  have "(of_nat (length xs) - 2 :: rat) = of_int (int (length xs) - 2)" by simp
  then have t: "trunc (of_nat (length xs) - 2) = int (length xs) - 2"
    by (simp only: trunc_of_int)
  have z: "trunc 0 = 0" by (simp add: trunc_def)
  show ?thesis
    by (auto simp: js_slice_def Let_def t z nat_diff_distrib)
qed

lemma splice_arrays:
  fixes tableData bytes :: "byte list"
  assumes "2 \<le> length bytes"
  shows "(case new_Uint8Array (int (length bytes) + int (length tableData) - 2) of
            Inl err \<Rightarrow> Inl err
          | Inr actualBytes \<Rightarrow>
              (case Uint8Array_set actualBytes tableData 0 of
                 Inl err \<Rightarrow> Inl err
               | Inr actualBytes \<Rightarrow>
                   Uint8Array_set actualBytes (drop 2 bytes) (length tableData)))
         = Inr (tableData @ drop 2 bytes)"
proof -
  define n where "n = length bytes - 2 + length tableData"
  have n: "int (length bytes) + int (length tableData) - 2 = int n"
    using assms by (simp add: n_def)
  have a: "new_Uint8Array (int n) = Inr (replicate n 0)"
    by (simp add: new_Uint8Array_def)
  have b: "Uint8Array_set (replicate n 0) tableData 0
             = Inr (tableData @ replicate (length bytes - 2) 0)"
    by (simp add: Uint8Array_set_def n_def)
  have c: "Uint8Array_set (tableData @ replicate (length bytes - 2) 0) (drop 2 bytes)
             (length tableData) = Inr (tableData @ drop 2 bytes)"
    by (simp add: Uint8Array_set_def)
  show ?thesis by (simp only: n a b c sum.case)
qed

lemma getJpegHeader_splice:
  assumes "value_of img JPEGTables = Arr tables" "2 \<le> length bytes"
  shows "getJpegHeader img bytes
           = Inr (map ToUint8 (take (length tables - 2) tables) @ drop 2 bytes)"
  using assms(1) splice_arrays [OF assms(2), of "map ToUint8 (take (length tables - 2) tables)"]
  by (simp add: getJpegHeader_def nullish_def js_slice_drop_last2 Let_def)

lemma markers_length:
  assumes "take 2 xs = [a, b]" "drop (length xs - 2) xs = [c, d]" "b \<noteq> d" "b \<noteq> c"
  shows "4 \<le> length xs"
proof (rule ccontr)
  assume "\<not> 4 \<le> length xs"
  then consider "length xs = 0" | "length xs = 1" | "length xs = 2" | "length xs = 3" by linarith
  then show False
  proof cases
    case 1 with assms show ?thesis by simp
  next
    case 2 with assms show ?thesis by (cases xs) auto
  next
    case 3 with assms show ?thesis by (cases xs; cases "tl xs") auto
  next
    case 4 with assms show ?thesis
      by (cases xs; cases "tl xs"; cases "tl (tl xs)") auto
  qed
qed


text \<open>
  C7. A JPEG-compressed tile or strip: the tables (length \<open>L\<close>) start with the SOI
  marker FF D8 and end with the EOI marker FF D9, and so does the fetched payload
  (length \<open>T\<close>, at least the byte count asked for, which is not 0). Then \<^verbatim>\<open>getBytes\<close>
  returns the tables without their last two bytes followed by the payload without its
  first two: \<open>L + T - 4\<close> bytes that start with FF D8 and end with FF D9.
\<close>

theorem jpeg_header_splice:
  assumes comp: "compression ext img = Some (MimeJpeg ext)"
      and tables: "value_of img JPEGTables = Arr tables"
      and t_soi: "take 2 tables = [Fin 255, Fin 216]"
      and t_eoi: "drop (length tables - 2) tables = [Fin 255, Fin 217]"
      and fetched: "source tiff offset byteCount = Inr bytes"
      and enough: "\<not> js_lt (Fin (of_nat (length bytes))) (ToNumber byteCount)"
      and nonzero: "\<not> strict_eq_num byteCount (Fin 0)"
      and b_soi: "take 2 bytes = [255, 216]"
      and b_eoi: "drop (length bytes - 2) bytes = [255, 217]"
  shows "\<exists>out. getBytes ext tiff img offset byteCount
                  = (Inr (Some (MimeJpeg ext, out)), [(offset, byteCount)])
           \<and> out = map ToUint8 (take (length tables - 2) tables) @ drop 2 bytes
           \<and> length out = length tables + length bytes - 4
           \<and> take 2 out = [255, 216]
           \<and> drop (length out - 2) out = [255, 217]"
proof -
  let ?out = "map ToUint8 (take (length tables - 2) tables) @ drop 2 bytes"
  have L: "4 \<le> length tables"
    using t_soi t_eoi by (rule markers_length) simp_all
  have T: "4 \<le> length bytes"
    using b_soi b_eoi by (rule markers_length) simp_all
  have h: "getJpegHeader img bytes = Inr ?out"
    using tables T by (intro getJpegHeader_splice) simp_all
  have g: "getBytes ext tiff img offset byteCount
             = (Inr (Some (MimeJpeg ext, ?out)), [(offset, byteCount)])"
    using enough nonzero by (simp add: getBytes_def comp fetched external_def h)
  have len: "length ?out = length tables + length bytes - 4"
    using L T by simp
  have "2 \<le> length tables - 2" using L by simp
  then have "take 2 (take (length tables - 2) tables) = take 2 tables"
    by (simp add: min_absorb2)
  then have start: "take 2 ?out = [255, 216]"
    using L t_soi by (simp add: take_map)
  have "length ?out - 2 = (length tables - 2) + (length bytes - 2 - 2)"
    using L T by simp
  moreover have "2 + (length bytes - 2 - 2) = length bytes - 2" using T by simp
  ultimately have "drop (length ?out - 2) ?out = drop (length bytes - 2) bytes"
    using L by (simp add: min_absorb2)
  then have fin: "drop (length ?out - 2) ?out = [255, 217]"
    using b_eoi by simp
  show ?thesis using g len start fin by blast
qed

lemma jpeg_strip_values:
  "value_of jpeg_strip JPEGTables = Arr [Fin 255, Fin 216, Fin 255, Fin 219, Fin 255, Fin 217]"
  "value_of jpeg_strip Compression = Num (Fin 7)"
  "value_of jpeg_strip TileWidth = Null"
  "tags jpeg_strip StripOffsets = Some (inline_tag StripOffsets (Num (Fin 0)))"
  "tags jpeg_strip StripByteCounts = Some (inline_tag StripByteCounts (Num (Fin 6)))"
  by (simp_all add: jpeg_strip_def striped_image_def with_tag_def value_of_def inline_tag_def
        array_tag_def tag_ids)

text \<open>The theorem at a strip of 6 bytes with tables of 6 bytes: 8 bytes.\<close>

theorem jpeg_header_splice_witness:
  "getBytes example_ext (example_reader jpeg_file [jpeg_strip]) jpeg_strip
      (Num (Fin 0)) (Num (Fin 6))
     = (Inr (Some (''image/jpeg'', [255, 216, 255, 219, 1, 2, 255, 217])),
        [(Num (Fin 0), Num (Fin 6))])"
  using jpeg_header_splice [of example_ext jpeg_strip
          "[Fin 255, Fin 216, Fin 255, Fin 219, Fin 255, Fin 217]"
          "example_reader jpeg_file [jpeg_strip]" "Num (Fin 0)" "Num (Fin 6)"
          "[255, 216, 1, 2, 255, 217]"]
  by (simp add: jpeg_strip_values compression_def example_ext_def example_reader_def
        jpeg_file_def js_eq_def)

subsection \<open>Sparse tiles\<close>

lemma await1_Inr:
  "await1 e = Inr v \<Longrightarrow> e = Inr (Inr v)"
  by (auto simp: await1_def split: sum.splits)

text \<open>
  C2 (as amended). A tiled image (sizes that are integers below \<open>2 ^ 53\<close>, positive
  tile sizes) with a supported compression and at most \<open>2 ^ 53\<close> tiles, and an in-range
  tile \<open>(x, y)\<close> with index \<open>idx = y * nxTiles + x\<close>, whose
  recorded offset (\<^verbatim>\<open>TileOffsets[idx]\<close>) is 0 and, where the reader has no tile leader
  size, whose recorded byte count (\<^verbatim>\<open>TileByteCounts[idx]\<close>) is 0 too:
  \<^verbatim>\<open>getTile(x, y)\<close> returns \<^verbatim>\<open>null\<close>, raises no error and sends no request for the
  bytes of the tile (nor for its leader) to the Source.
\<close>

theorem getTile_sparse:
  fixes w h tw th :: nat
  assumes comp: "compression ext img = Some mime"
      and iw: "value_of img ImageWidth = Num (Fin (of_nat w))"
      and ih: "value_of img ImageHeight = Num (Fin (of_nat h))"
      and tw: "value_of img TileWidth = Num (Fin (of_nat tw))"
      and th: "value_of img TileHeight = Num (Fin (of_nat th))"
      and sz: "w < 2 ^ 53" "h < 2 ^ 53" "0 < tw" "tw < 2 ^ 53" "0 < th" "th < 2 ^ 53"
      and x: "0 \<le> x" "x < \<lceil>of_nat w / of_nat tw :: rat\<rceil>"
      and y: "0 \<le> y" "y < \<lceil>of_nat h / of_nat th :: rat\<rceil>"
      and small: "\<lceil>of_nat w / of_nat tw :: rat\<rceil> * \<lceil>of_nat h / of_nat th :: rat\<rceil> \<le> 2 ^ 53"
      and idx: "idx = Fin (of_int (y * \<lceil>of_nat w / of_nat tw :: rat\<rceil> + x))"
      and t: "tags img TileOffsets = Some t"
      and off: "await1 (getOffset ext tiff (Some t) idx) = Inr (Num (Fin 0))"
      and cnt: "truthy (tileLeaderByteSize tiff)
                \<or> (\<exists>bc. tags img TileByteCounts = Some bc
                      \<and> await1 (getOffset ext tiff (Some bc) idx) = Inr (Num (Fin 0)))"
  shows "getTile ext tiff img (Fin (of_int x)) (Fin (of_int y)) = (Inr None, [])"
proof -
  have ts: "getTileSize ext tiff img idx
              = (Inr \<lparr>tile_offset = Num (Fin 0), imageSize = Num (Fin 0)\<rparr>, [])"
  proof (cases "truthy (tileLeaderByteSize tiff)")
    case True
    then show ?thesis
      by (simp add: getTileSize_def tileOffset_def t off js_eq_def)
  next
    case False
    with cnt obtain bc where bc: "tags img TileByteCounts = Some bc"
      and c: "await1 (getOffset ext tiff (Some bc) idx) = Inr (Num (Fin 0))"
      by blast
    show ?thesis
      using False
      by (simp add: getTileSize_def tileOffset_def t bc await_all2_def
            await1_Inr [OF off] await1_Inr [OF c])
  qed
  have b: "getBytes ext tiff img (Num (Fin 0)) (Num (Fin 0)) = (Inr None, [])"
    by (simp add: getBytes_def comp js_eq_def)
  show ?thesis
    unfolding getTile_in_range [OF iw ih tw th sz x y small] idx [symmetric] ts
    by (simp add: comp b)
qed

text \<open>The theorem at the image whose second tile is recorded with offset 0 and 0 bytes.\<close>

lemma sparse_tiles_values:
  "value_of sparse_tiles ImageWidth = Num (Fin 512)"
  "value_of sparse_tiles ImageHeight = Num (Fin 512)"
  "value_of sparse_tiles TileWidth = Num (Fin 256)"
  "value_of sparse_tiles TileHeight = Num (Fin 256)"
  "value_of sparse_tiles Compression = Num (Fin 1)"
  "tags sparse_tiles TileOffsets = Some (array_tag TileOffsets [Fin 16, Fin 0, Fin 48, Fin 64])"
  "tags sparse_tiles TileByteCounts =
     Some (array_tag TileByteCounts [Fin 16, Fin 0, Fin 16, Fin 16])"
  by (simp_all add: sparse_tiles_def four_tiles_def with_tag_def tiled_image_def value_of_def
        inline_tag_def array_tag_def tag_ids)

lemma zero_offset_tiles_values:
  "value_of zero_offset_tiles ImageWidth = Num (Fin 512)"
  "value_of zero_offset_tiles ImageHeight = Num (Fin 512)"
  "value_of zero_offset_tiles TileWidth = Num (Fin 256)"
  "value_of zero_offset_tiles TileHeight = Num (Fin 256)"
  "value_of zero_offset_tiles Compression = Num (Fin 1)"
  "tags zero_offset_tiles TileOffsets
     = Some (array_tag TileOffsets [Fin 0, Fin 32, Fin 48, Fin 64])"
  "tags zero_offset_tiles TileByteCounts =
     Some (array_tag TileByteCounts [Fin 16, Fin 16, Fin 16, Fin 16])"
  by (simp_all add: zero_offset_tiles_def four_tiles_def with_tag_def tiled_image_def
        value_of_def inline_tag_def array_tag_def tag_ids)

text \<open>
  C2 as stated fails: \<^verbatim>\<open>getBytes\<close> returns \<^verbatim>\<open>null\<close> for a byte count of 0, not for an
  offset of 0. Without a tile leader, the tile (0, 0) recorded at offset 0 with 16 bytes
  is fetched (a request for 16 bytes at offset 0) and those bytes are returned. And
  \<^verbatim>\<open>getTile\<close> tests the compression first: for the tile (1, 0) recorded at offset 0
  with 0 bytes in an image of unknown compression (code 99) it raises an error. And in
  the image of 134217729 x 134217729 tiles, whose tiles are all recorded at offset 0,
  the last tile has the index 18014398777917440, which is what the source computes for
  the number of tiles: \<^verbatim>\<open>getTile\<close> raises the error of its guard
  \<^verbatim>\<open>idx >= totalTiles\<close>.
\<close>

theorem getTile_zero_offset_counterexample:
  "getTileSize example_ext (example_reader (replicate 100 7) [zero_offset_tiles])
      zero_offset_tiles (Fin 0)
     = (Inr \<lparr>tile_offset = Num (Fin 0), imageSize = Num (Fin 16)\<rparr>, [])
   \<and> getTile example_ext (example_reader (replicate 100 7) [zero_offset_tiles])
        zero_offset_tiles (Fin 0) (Fin 0)
     = (Inr (Some (''application/octet-stream'', replicate 16 7)),
        [(Num (Fin 0), Num (Fin 16))])
   \<and> getTile example_ext
        (example_reader [] [with_tag sparse_tiles (inline_tag Compression (Num (Fin 99)))])
        (with_tag sparse_tiles (inline_tag Compression (Num (Fin 99)))) (Fin 1) (Fin 0)
     = (Inl (UnsupportedCompression (Num (Fin 99))), [])
   \<and> getOffset sparse_ext (example_reader [] [huge_tiles]) (tags huge_tiles TileOffsets)
        (Fin 18014398777917440) = Inr (Inr (Num (Fin 0)))
   \<and> getTile sparse_ext (example_reader [] [huge_tiles]) huge_tiles
        (Fin 134217728) (Fin 134217728)
     = (Inl (TileOutsideTileRange (Fin 18014398777917440) (Fin 18014398777917440)), [])"
proof -
  have a: "getTileSize example_ext (example_reader (replicate 100 7) [zero_offset_tiles])
      zero_offset_tiles (Fin 0)
     = (Inr \<lparr>tile_offset = Num (Fin 0), imageSize = Num (Fin 16)\<rparr>, [])
   \<and> getTile example_ext (example_reader (replicate 100 7) [zero_offset_tiles])
        zero_offset_tiles (Fin 0) (Fin 0)
     = (Inr (Some (''application/octet-stream'', replicate 16 7)),
        [(Num (Fin 0), Num (Fin 16))])
   \<and> getTile example_ext
        (example_reader [] [with_tag sparse_tiles (inline_tag Compression (Num (Fin 99)))])
        (with_tag sparse_tiles (inline_tag Compression (Num (Fin 99)))) (Fin 1) (Fin 0)
     = (Inl (UnsupportedCompression (Num (Fin 99))), [])"
    by (simp add: getTile_def getTileSize_def getBytes_def getOffset_def tileOffset_def
          await_all2_def zero_offset_tiles_values image_size_def tileSize_def compression_def
          example_ext_def example_reader_def array_tag_def external_def js_ge_def js_gt_def
          js_eq_def nullish_def Let_def)
       (simp add: with_tag_def inline_tag_def value_of_def tag_ids)
  have d: "getOffset sparse_ext (example_reader [] [huge_tiles]) (tags huge_tiles TileOffsets)
        (Fin 18014398777917440) = Inr (Inr (Num (Fin 0)))"
    by (simp add: getOffset_def huge_tiles_values sparse_ext_def external_def js_gt_def)
  have e: "getTile sparse_ext (example_reader [] [huge_tiles]) huge_tiles
        (Fin 134217728) (Fin 134217728)
     = (Inl (TileOutsideTileRange (Fin 18014398777917440) (Fin 18014398777917440)), [])"
    by (simp add: getTile_huge_tiles compression_def huge_tiles_values sparse_ext_def
          example_ext_def)
  show ?thesis using a d e by blast
qed


theorem getTile_sparse_witness:
  "getTile example_ext (example_reader (replicate 100 7) [sparse_tiles]) sparse_tiles
     (Fin 1) (Fin 0) = (Inr None, [])"
proof -
  let ?tiff = "example_reader (replicate 100 7) [sparse_tiles]"
  have c: "compression example_ext sparse_tiles = Some ''application/octet-stream''"
    by (simp add: sparse_tiles_values compression_def example_ext_def)
  have i: "Fin 1 = Fin (of_int (0 * \<lceil>of_nat 512 / of_nat 256 :: rat\<rceil> + 1))"
    by simp
  have v: "value_of sparse_tiles ImageWidth = Num (Fin (of_nat 512))"
    "value_of sparse_tiles ImageHeight = Num (Fin (of_nat 512))"
    "value_of sparse_tiles TileWidth = Num (Fin (of_nat 256))"
    "value_of sparse_tiles TileHeight = Num (Fin (of_nat 256))"
    by (simp_all add: sparse_tiles_values)
  have o: "await1 (getOffset example_ext ?tiff
             (Some (array_tag TileOffsets [Fin 16, Fin 0, Fin 48, Fin 64])) (Fin 1))
           = Inr (Num (Fin 0))"
    by (simp add: getOffset_def await1_def array_tag_def js_gt_def nullish_def)
  have n: "truthy (tileLeaderByteSize ?tiff)
           \<or> (\<exists>bc. tags sparse_tiles TileByteCounts = Some bc
                 \<and> await1 (getOffset example_ext ?tiff (Some bc) (Fin 1)) = Inr (Num (Fin 0)))"
    by (simp add: sparse_tiles_values getOffset_def await1_def array_tag_def js_gt_def
          nullish_def)
  have "getTile example_ext ?tiff sparse_tiles (Fin (of_int 1)) (Fin (of_int 0))
          = (Inr None, [])"
    by (rule getTile_sparse [OF c v _ _ _ _ _ _ _ _ _ _ _ i
          sparse_tiles_values(6) o n]) simp_all
  then show ?thesis by simp
qed


subsection \<open>Strips\<close>

text \<open>
  C3 (as amended). A striped image with a supported compression and an in-range strip
  index \<open>i\<close> whose byte count \<^verbatim>\<open>StripByteCounts[i]\<close> is not 0: \<^verbatim>\<open>getStrip(i)\<close> asks
  the Source for the bytes of the strip at offset \<^verbatim>\<open>StripOffsets[i]\<close> with length
  \<^verbatim>\<open>StripByteCounts[i]\<close>, which is the one request in the list of its own requests;
  when the Source answers with exactly that many bytes and the compression is not
  JPEG, \<^verbatim>\<open>getStrip\<close> returns those bytes.
\<close>

theorem getStrip_fetch:
  assumes untiled: "\<not> isTiled img"
      and bc: "tags img StripByteCounts = Some bc"
      and so: "tags img StripOffsets = Some so"
      and rng: "0 \<le> i" "i < of_nat (tag_count bc)"
      and off: "await1 (getOffset ext tiff (Some so) (Fin i)) = Inr off"
      and cnt: "await1 (getOffset ext tiff (Some bc) (Fin i)) = Inr cnt"
      and comp: "compression ext img = Some mime"
      and nz: "\<not> strict_eq_num cnt (Fin 0)"
  shows "snd (getStrip ext tiff img (Fin i)) = [(off, cnt)]
         \<and> (\<forall>bytes. source tiff off cnt = Inr bytes
                \<and> cnt = Num (Fin (of_nat (length bytes))) \<and> mime \<noteq> MimeJpeg ext
              \<longrightarrow> fst (getStrip ext tiff img (Fin i)) = Inr (Some (mime, bytes)))"
proof -
  have s: "getStrip ext tiff img (Fin i) = getBytes ext tiff img off cnt"
    using untiled rng
    by (simp add: getStrip_def bc so Let_def js_ge_def await_all2_def
          await1_Inr [OF off] await1_Inr [OF cnt])
  have r: "snd (getBytes ext tiff img off cnt) = [(off, cnt)]"
    using nz by (simp add: getBytes_def comp split: sum.splits)
  have v: "fst (getBytes ext tiff img off cnt) = Inr (Some (mime, bytes))"
    if "source tiff off cnt = Inr bytes" "cnt = Num (Fin (of_nat (length bytes)))"
       "mime \<noteq> MimeJpeg ext" for bytes
    using that nz by (simp add: getBytes_def comp external_def)
  show ?thesis unfolding s using r v by blast
qed

text \<open>The theorem at an uncompressed strip of 6 bytes at offset 2.\<close>

lemma plain_strip_values:
  "value_of (striped_image 1 2 6) Compression = Num (Fin 1)"
  "value_of (striped_image 1 2 6) TileWidth = Null"
  "tags (striped_image 1 2 6) StripOffsets = Some (inline_tag StripOffsets (Num (Fin 2)))"
  "tags (striped_image 1 2 6) StripByteCounts = Some (inline_tag StripByteCounts (Num (Fin 6)))"
  by (simp_all add: striped_image_def value_of_def inline_tag_def tag_ids)

theorem getStrip_fetch_witness:
  "snd (getStrip example_ext (example_reader jpeg_file [striped_image 1 2 6])
          (striped_image 1 2 6) (Fin 0)) = [(Num (Fin 2), Num (Fin 6))]
   \<and> fst (getStrip example_ext (example_reader jpeg_file [striped_image 1 2 6])
          (striped_image 1 2 6) (Fin 0))
       = Inr (Some (''application/octet-stream'', [1, 2, 255, 217, 3, 4]))"
proof -
  let ?img = "striped_image 1 2 6"
  let ?tiff = "example_reader jpeg_file [?img]"
  have u: "\<not> isTiled ?img" by (simp add: isTiled_def plain_strip_values)
  have o: "await1 (getOffset example_ext ?tiff (Some (inline_tag StripOffsets (Num (Fin 2))))
             (Fin 0)) = Inr (Num (Fin 2))"
    by (simp add: getOffset_def await1_def inline_tag_def js_gt_def)
  have n: "await1 (getOffset example_ext ?tiff (Some (inline_tag StripByteCounts (Num (Fin 6))))
             (Fin 0)) = Inr (Num (Fin 6))"
    by (simp add: getOffset_def await1_def inline_tag_def js_gt_def)
  have c: "compression example_ext ?img = Some ''application/octet-stream''"
    by (simp add: plain_strip_values compression_def example_ext_def)
  have z: "\<not> strict_eq_num (Num (Fin 6)) (Fin 0)" by (simp add: js_eq_def)
  have r: "0 \<le> (0::rat)" "0 < (of_nat (tag_count (inline_tag StripByteCounts (Num (Fin 6)))) :: rat)"
    by (simp_all add: inline_tag_def)
  note t = getStrip_fetch [OF u plain_strip_values(4) plain_strip_values(3) r o n c z]
  have f: "source ?tiff (Num (Fin 2)) (Num (Fin 6)) = Inr [1, 2, 255, 217, 3, 4]"
    by (simp add: example_reader_def jpeg_file_def)
  have "fst (getStrip example_ext ?tiff ?img (Fin 0))
          = Inr (Some (''application/octet-stream'', [1, 2, 255, 217, 3, 4]))"
    using t [THEN conjunct2, rule_format, of "[1, 2, 255, 217, 3, 4]"] f
    by (simp add: example_ext_def)
  with t [THEN conjunct1] show ?thesis by simp
qed

text \<open>
  C3 as stated fails at its last part: the JPEG-compressed strip of 6 bytes at offset 0
  is requested at \<open>(0, 6)\<close>, the Source answers with the 6 bytes, and \<^verbatim>\<open>getStrip(0)\<close>
  returns 8 bytes, the strip spliced behind the JPEG tables. And it fails where
  \<^verbatim>\<open>getBytes\<close> does not reach the Source: for a strip of an unknown compression
  (code 99) \<^verbatim>\<open>getStrip(0)\<close> raises an error, and for a strip of 0 bytes it returns
  \<^verbatim>\<open>null\<close>, both without a request.
\<close>

theorem getStrip_counterexample:
  "stripCount jpeg_strip = 1
   \<and> getOffset example_ext (example_reader jpeg_file [jpeg_strip])
        (tags jpeg_strip StripByteCounts) (Fin 0) = Inr (Inr (Num (Fin 6)))
   \<and> source (example_reader jpeg_file [jpeg_strip]) (Num (Fin 0)) (Num (Fin 6))
        = Inr [255, 216, 1, 2, 255, 217]
   \<and> getStrip example_ext (example_reader jpeg_file [jpeg_strip]) jpeg_strip (Fin 0)
     = (Inr (Some (''image/jpeg'', [255, 216, 255, 219, 1, 2, 255, 217])),
        [(Num (Fin 0), Num (Fin 6))])
   \<and> getStrip example_ext (example_reader jpeg_file [striped_image 99 2 6])
        (striped_image 99 2 6) (Fin 0)
     = (Inl (UnsupportedCompression (Num (Fin 99))), [])
   \<and> getStrip example_ext (example_reader jpeg_file [striped_image 1 2 0])
        (striped_image 1 2 0) (Fin 0)
     = (Inr None, [])"
proof -
  have j: "stripCount jpeg_strip = 1
   \<and> getOffset example_ext (example_reader jpeg_file [jpeg_strip])
        (tags jpeg_strip StripByteCounts) (Fin 0) = Inr (Inr (Num (Fin 6)))
   \<and> source (example_reader jpeg_file [jpeg_strip]) (Num (Fin 0)) (Num (Fin 6))
        = Inr [255, 216, 1, 2, 255, 217]
   \<and> getStrip example_ext (example_reader jpeg_file [jpeg_strip]) jpeg_strip (Fin 0)
     = (Inr (Some (''image/jpeg'', [255, 216, 255, 219, 1, 2, 255, 217])),
        [(Num (Fin 0), Num (Fin 6))])"
    by (simp add: getStrip_def getBytes_def getOffset_def getJpegHeader_splice stripCount_def
          await_all2_def jpeg_strip_values isTiled_def compression_def
          example_ext_def example_reader_def jpeg_file_def inline_tag_def external_def
          js_ge_def js_gt_def js_eq_def Let_def)
  have v: "value_of (striped_image c off cnt) Compression = Num (Fin c)"
    "value_of (striped_image c off cnt) TileWidth = Null"
    "tags (striped_image c off cnt) StripOffsets
       = Some (inline_tag StripOffsets (Num (Fin off)))"
    "tags (striped_image c off cnt) StripByteCounts
       = Some (inline_tag StripByteCounts (Num (Fin cnt)))" for c off cnt
    by (simp_all add: striped_image_def value_of_def inline_tag_def tag_ids)
  have u: "getStrip example_ext (example_reader jpeg_file [striped_image 99 2 6])
        (striped_image 99 2 6) (Fin 0)
     = (Inl (UnsupportedCompression (Num (Fin 99))), [])"
    by (simp add: getStrip_def getBytes_def getOffset_def await_all2_def v isTiled_def
          compression_def example_ext_def inline_tag_def js_ge_def js_gt_def Let_def)
  have z: "getStrip example_ext (example_reader jpeg_file [striped_image 1 2 0])
        (striped_image 1 2 0) (Fin 0)
     = (Inr None, [])"
    by (simp add: getStrip_def getBytes_def getOffset_def await_all2_def v isTiled_def
          compression_def example_ext_def inline_tag_def js_ge_def js_gt_def js_eq_def
          Let_def)
  show ?thesis using j u z by blast
qed

subsection \<open>Choosing an image by resolution\<close>

lemma resolution_loop_scan:
  assumes ok_def: "\<And>i. ok i = js_le (rnd (js_sub (rnd (js_div base
                      (ToNumber (width (image_size (images tiff ! i)))))) r)) (dbl (1 / 100))"
  shows "resolution_loop tiff base r n \<le> n
         \<and> (0 < resolution_loop tiff base r n \<longrightarrow> ok (resolution_loop tiff base r n))
         \<and> (\<forall>j. resolution_loop tiff base r n < j \<and> j \<le> n \<longrightarrow> \<not> ok j)"
proof (induction n)
  case 0
  show ?case by simp
next
  case (Suc n)
  show ?case
  proof (cases "ok (Suc n)")
    case True
    then have "resolution_loop tiff base r (Suc n) = Suc n"
      by (simp add: ok_def Let_def)
    with True show ?thesis by auto
  next
    case False
    then have e: "resolution_loop tiff base r (Suc n) = resolution_loop tiff base r n"
      by (simp add: ok_def Let_def)
    show ?thesis
      unfolding e using Suc.IH False by (auto simp: le_Suc_eq)
  qed
qed

lemma resolution_base:
  "(\<exists>res. resolution tiff 0 = Inr res)
   \<longleftrightarrow> images tiff \<noteq> []
       \<and> (\<not> nullish (value_of (images tiff ! 0) ModelPixelScale)
            \<or> \<not> nullish (value_of (images tiff ! 0) ModelTransformation))"
  by (auto simp: resolution.simps [of tiff 0] Let_def)

lemma resolution_base_error:
  "resolution tiff 0 = Inl err \<Longrightarrow> getImageByResolution tiff r = Inl err"
  by (cases "images tiff")
     (simp_all add: getImageByResolution_def getImageByResolution_index_def
        resolution.simps [of tiff 0])

text \<open>
  C1 (as amended). For a reader whose first image has a resolution (a loaded pixel scale
  or model transformation: lemma \<open>resolution_base\<close>), \<^verbatim>\<open>getImageByResolution(r)\<close>
  returns an image of the reader, at a valid index \<open>k\<close>. The x-resolution of image
  \<open>i\<close> is taken as the source computes it in doubles,
  \<open>xres i = rnd (rnd (refX * width\<^sub>0) / width\<^sub>i)\<close>, and \<open>ok i\<close> is the test
  \<open>rnd (xres i - r) \<le> 0.01\<close> of the loop. Then \<open>k\<close> is the first index that passes the
  test, scanning from the last image down to 1, and 0 only when no index above 0
  passes it. Where the images above 0 are ordered from fine to coarse, the image
  returned is the coarsest that passes. Where the difference \<open>xres i - r\<close> is a double
  the test is \<open>xres i \<le> r + 0.01\<close>, with the double 0.01.
\<close>

theorem getImageByResolution_scan:
  fixes tiff r refX refY refZ
  defines "base \<equiv> rnd (js_mul (ToNumber refX) (ToNumber (width (image_size (images tiff ! 0)))))"
  defines "xres \<equiv> \<lambda>i. rnd (js_div base (ToNumber (width (image_size (images tiff ! i)))))"
  defines "ok \<equiv> \<lambda>i. js_le (rnd (js_sub (xres i) r)) (dbl (1 / 100))"
  assumes res: "resolution tiff 0 = Inr (refX, refY, refZ)"
  shows "\<exists>k. getImageByResolution_index tiff r = Inr k
             \<and> getImageByResolution tiff r = Inr (images tiff ! k)
             \<and> k < length (images tiff)
             \<and> (0 < k \<longrightarrow> ok k)
             \<and> (\<forall>j. k < j \<and> j < length (images tiff) \<longrightarrow> \<not> ok j)
             \<and> ((\<forall>i j. 0 < i \<and> i \<le> j \<and> j < length (images tiff) \<longrightarrow> js_le (xres i) (xres j))
                  \<longrightarrow> (\<forall>j. 0 < j \<and> j < length (images tiff) \<and> ok j \<longrightarrow> js_le (xres j) (xres k)))
             \<and> (\<forall>j a q. xres j = Fin a \<and> r = Fin q \<and> dbl (a - q) = Fin (a - q)
                   \<longrightarrow> ok j = (a \<le> q + 5764607523034235 / 576460752303423488))"
proof -
  from res have ne: "images tiff \<noteq> []"
    by (auto simp: resolution.simps [of tiff 0])
  then obtain firstImage others where im: "images tiff = firstImage # others"
    by (cases "images tiff") auto
  define n where "n = length (images tiff) - 1"
  have len: "length (images tiff) = Suc n" using ne by (simp add: n_def)
  define k where "k = resolution_loop tiff base r n"
  have i: "getImageByResolution_index tiff r = Inr k"
    by (simp add: getImageByResolution_index_def im res k_def n_def base_def Let_def)
  then have g: "getImageByResolution tiff r = Inr (images tiff ! k)"
    by (simp add: getImageByResolution_def)
  have "\<And>i. ok i = js_le (rnd (js_sub (rnd (js_div base
           (ToNumber (width (image_size (images tiff ! i)))))) r)) (dbl (1 / 100))"
    by (simp add: ok_def xres_def)
  note s = resolution_loop_scan [of ok base tiff r n, OF this, folded k_def]
  have lt: "k < length (images tiff)" using s by (simp add: len)
  have up: "\<forall>j. k < j \<and> j < length (images tiff) \<longrightarrow> \<not> ok j"
    using s by (auto simp: len less_Suc_eq_le)
  have mono: "\<forall>j. 0 < j \<and> j < length (images tiff) \<and> ok j \<longrightarrow> js_le (xres j) (xres k)"
    if m: "\<forall>i j. 0 < i \<and> i \<le> j \<and> j < length (images tiff) \<longrightarrow> js_le (xres i) (xres j)"
  proof (intro allI impI)
    fix j assume j: "0 < j \<and> j < length (images tiff) \<and> ok j"
    with up have "j \<le> k" by (meson not_le)
    with j lt m show "js_le (xres j) (xres k)" by blast
  qed
  have fin: "\<forall>j a q. xres j = Fin a \<and> r = Fin q \<and> dbl (a - q) = Fin (a - q)
                   \<longrightarrow> ok j = (a \<le> q + 5764607523034235 / 576460752303423488)"
  proof (intro allI impI)
    fix j a q
    assume h: "xres j = Fin a \<and> r = Fin q \<and> dbl (a - q) = Fin (a - q)"
    then have "ok j = (a - q \<le> 5764607523034235 / 576460752303423488)"
      by (simp add: ok_def js_sub_def dbl_hundredth)
    also have "\<dots> = (a \<le> q + 5764607523034235 / 576460752303423488)" by linarith
    finally show "ok j = (a \<le> q + 5764607523034235 / 576460752303423488)" .
  qed
  show ?thesis using i g lt s up mono fin by blast
qed

text \<open>The theorem at the reader of four images and \<open>r = 4\<close>: the image at index 2.\<close>

lemma pyramid_facts:
  "length (images pyramid) = 4"
  "resolution pyramid 0 = Inr (Num (Fin 1), Num (Fin (- 1)), Num (Fin 0))"
  "value_of (images pyramid ! 0) ImageWidth = Num (Fin 800)"
  "value_of (images pyramid ! 1) ImageWidth = Num (Fin (800 / 2))"
  "value_of (images pyramid ! 2) ImageWidth = Num (Fin (800 / 4))"
  "value_of (images pyramid ! 3) ImageWidth = Num (Fin (800 / 8))"
  by (simp_all add: pyramid_def example_reader_def resolution.simps [of _ 0] sized_image_def
        value_of_def inline_tag_def array_tag_def tag_ids nullish_def Let_def)

text \<open>
  The test of the loop on finite numbers, where \<open>x\<close> is the quotient as a double and
  \<open>d\<close> the difference as a double.
\<close>

lemma resolution_test:
  assumes "w \<noteq> 0" "dbl (b / w) = Fin x" "dbl (x - q) = Fin d"
  shows "js_le (rnd (js_sub (rnd (js_div (Fin b) (Fin w))) (Fin q))) (dbl (1 / 100))
           = (d \<le> 5764607523034235 / 576460752303423488)"
  using assms by (simp add: js_sub_def dbl_hundredth)

lemma index_loop:
  assumes res: "resolution tiff 0 = Inr (refX, refY, refZ)"
  shows "getImageByResolution_index tiff r
           = Inr (resolution_loop tiff
                    (rnd (js_mul (ToNumber refX)
                       (ToNumber (value_of (images tiff ! 0) ImageWidth))))
                    r (length (images tiff) - 1))"
proof -
  from res have "images tiff \<noteq> []"
    by (auto simp: resolution.simps [of tiff 0])
  then obtain firstImage others where im: "images tiff = firstImage # others"
    by (cases "images tiff") auto
  show ?thesis
    using res by (simp add: getImageByResolution_index_def im image_size_def Let_def)
qed

lemma index_of_four:
  fixes tiff r refX refY refZ
  defines "base \<equiv> rnd (js_mul (ToNumber refX) (ToNumber (value_of (images tiff ! 0) ImageWidth)))"
  defines "ok \<equiv> \<lambda>i. js_le (rnd (js_sub (rnd (js_div base
                      (ToNumber (value_of (images tiff ! i) ImageWidth)))) r)) (dbl (1 / 100))"
  assumes len: "length (images tiff) = 4"
      and res: "resolution tiff 0 = Inr (refX, refY, refZ)"
  shows "getImageByResolution_index tiff r
           = Inr (if ok 3 then 3 else if ok 2 then 2 else if ok 1 then 1 else 0)"
proof -
  from len obtain firstImage others where im: "images tiff = firstImage # others"
    by (cases "images tiff") auto
  have f: "firstImage = images tiff ! 0" by (simp add: im)
  have n: "length (images tiff) - 1 = Suc (Suc (Suc 0))" using len by simp
  have "getImageByResolution_index tiff r
          = Inr (resolution_loop tiff base r (Suc (Suc (Suc 0))))"
    unfolding getImageByResolution_index_def im list.case f [symmetric] n [unfolded im]
    by (simp add: res [unfolded im] f image_size_def base_def Let_def)
  also have "resolution_loop tiff base r (Suc (Suc (Suc 0)))
          = (if ok 3 then 3 else if ok 2 then 2 else if ok 1 then 1 else 0)"
    by (simp add: ok_def image_size_def Let_def numeral_3_eq_3 numeral_2_eq_2)
  finally show ?thesis .
qed

theorem getImageByResolution_scan_witness:
  "getImageByResolution_index pyramid (Fin 4) = Inr 2
   \<and> getImageByResolution pyramid (Fin 4) = Inr (images pyramid ! 2)"
proof -
  from getImageByResolution_scan [OF pyramid_facts(2), of "Fin 4"]
  obtain k where k: "getImageByResolution_index pyramid (Fin 4) = Inr k"
      "getImageByResolution pyramid (Fin 4) = Inr (images pyramid ! k)"
    by blast
  have "getImageByResolution_index pyramid (Fin 4) = Inr 2"
    by (simp add: index_of_four [OF pyramid_facts(1,2)] pyramid_facts(3-6) js_sub_def
          dbl_hundredth)
  with k show ?thesis by simp
qed

text \<open>
  C6 (as amended). A reader of four images whose base has x-resolution 1 and a width
  \<open>w\<close> (a double) and whose overviews have a half, a quarter and an eighth of that
  width (x-resolutions 2, 4 and 8): \<^verbatim>\<open>getImageByResolution(3.5)\<close> returns the image at
  index 1, of resolution 2; \<^verbatim>\<open>getImageByResolution(0.5)\<close> the image at index 0;
  \<^verbatim>\<open>getImageByResolution(100)\<close> the image at index 3.
\<close>

theorem getImageByResolution_pyramid:
  assumes len: "length (images tiff) = 4"
      and res: "resolution tiff 0 = Inr (Num (Fin 1), refY, refZ)"
      and w0: "value_of (images tiff ! 0) ImageWidth = Num (Fin w)" "0 < w" "dbl w = Fin w"
      and w1: "value_of (images tiff ! 1) ImageWidth = Num (Fin (w / 2))"
      and w2: "value_of (images tiff ! 2) ImageWidth = Num (Fin (w / 4))"
      and w3: "value_of (images tiff ! 3) ImageWidth = Num (Fin (w / 8))"
  shows "getImageByResolution_index tiff (Fin (7 / 2)) = Inr 1
         \<and> getImageByResolution tiff (Fin (7 / 2)) = Inr (images tiff ! 1)
         \<and> getImageByResolution_index tiff (Fin (1 / 2)) = Inr 0
         \<and> getImageByResolution tiff (Fin (1 / 2)) = Inr (images tiff ! 0)
         \<and> getImageByResolution_index tiff (Fin 100) = Inr 3
         \<and> getImageByResolution tiff (Fin 100) = Inr (images tiff ! 3)"
proof -
  have q: "w / (w / 2) = 2" "w / (w / 4) = 4" "w / (w / 8) = 8" "w / 2 \<noteq> 0" "w / 4 \<noteq> 0"
    "w / 8 \<noteq> 0"
    using w0(2) by simp_all
  have b: "rnd (js_mul (ToNumber (Num (Fin 1))) (ToNumber (value_of (images tiff ! 0) ImageWidth)))
             = Fin w"
    by (simp add: w0)
  have k1: "js_le (rnd (js_sub (rnd (js_div (Fin w)
                (ToNumber (value_of (images tiff ! 1) ImageWidth)))) (Fin r))) (dbl (1 / 100))
              = (d \<le> 5764607523034235 / 576460752303423488)"
    if "dbl (2 - r) = Fin d" for r d
    unfolding w1 ToNumber.simps using q(4) that by (intro resolution_test) (simp_all add: q)
  have k2: "js_le (rnd (js_sub (rnd (js_div (Fin w)
                (ToNumber (value_of (images tiff ! 2) ImageWidth)))) (Fin r))) (dbl (1 / 100))
              = (d \<le> 5764607523034235 / 576460752303423488)"
    if "dbl (4 - r) = Fin d" for r d
    unfolding w2 ToNumber.simps using q(5) that by (intro resolution_test) (simp_all add: q)
  have k3: "js_le (rnd (js_sub (rnd (js_div (Fin w)
                (ToNumber (value_of (images tiff ! 3) ImageWidth)))) (Fin r))) (dbl (1 / 100))
              = (d \<le> 5764607523034235 / 576460752303423488)"
    if "dbl (8 - r) = Fin d" for r d
    unfolding w3 ToNumber.simps using q(6) that by (intro resolution_test) (simp_all add: q)
  have h: "dbl (8 - 7 / 2) = Fin (9 / 2)" "dbl (4 - 7 / 2) = Fin (1 / 2)"
    "dbl (2 - 7 / 2) = Fin (- (3 / 2))" "dbl (8 - 1 / 2) = Fin (15 / 2)"
    "dbl (4 - 1 / 2) = Fin (7 / 2)" "dbl (2 - 1 / 2) = Fin (3 / 2)"
    "dbl (8 - 100) = Fin (- 92)"
    by (simp_all add: dbl_halves)
  have ra: "getImageByResolution_index tiff (Fin (7 / 2)) = Inr 1"
    unfolding index_of_four [OF len res] b k3 [OF h(1)] k2 [OF h(2)] k1 [OF h(3)] by simp
  have rb: "getImageByResolution_index tiff (Fin (1 / 2)) = Inr 0"
    unfolding index_of_four [OF len res] b k3 [OF h(4)] k2 [OF h(5)] k1 [OF h(6)] by simp
  have rc: "getImageByResolution_index tiff (Fin 100) = Inr 3"
    unfolding index_of_four [OF len res] b k3 [OF h(7)] by simp
  show ?thesis using ra rb rc by (simp add: getImageByResolution_def)
qed

text \<open>The theorem at the reader of four images.\<close>

theorem getImageByResolution_pyramid_witness:
  "getImageByResolution_index pyramid (Fin (7 / 2)) = Inr 1
   \<and> getImageByResolution_index pyramid (Fin (1 / 2)) = Inr 0
   \<and> getImageByResolution_index pyramid (Fin 100) = Inr 3"
  using getImageByResolution_pyramid [OF pyramid_facts(1-3) _ _ pyramid_facts(4-6)]
  by simp

lemma resolution_overview:
  assumes "i < length (images tiff)" "i \<noteq> 0"
      and "value_of (images tiff ! i) ModelPixelScale = Null"
      and "value_of (images tiff ! i) ModelTransformation = Null"
      and "value_of (images tiff ! i) NewSubFileType = Num (Fin 1)"
      and "resolution tiff 0 = Inr (resX, resY, resZ)"
  shows "resolution tiff i =
           Inr (Num (rnd (js_div (rnd (js_mul (ToNumber resX)
                       (ToNumber (value_of (images tiff ! 0) ImageWidth))))
                     (ToNumber (value_of (images tiff ! i) ImageWidth)))),
                Num (rnd (js_div (rnd (js_mul (ToNumber resY)
                       (ToNumber (value_of (images tiff ! 0) ImageHeight))))
                     (ToNumber (value_of (images tiff ! i) ImageHeight)))),
                resZ)"
  using assms
  by (subst resolution.simps) (simp add: Let_def nullish_def js_eq_def image_size_def)

lemma pyramid_overview_tags:
  "i \<in> {1, 2, 3} \<Longrightarrow> value_of (images pyramid ! i) ModelPixelScale = Null"
  "i \<in> {1, 2, 3} \<Longrightarrow> value_of (images pyramid ! i) ModelTransformation = Null"
  "i \<in> {1, 2, 3} \<Longrightarrow> value_of (images pyramid ! i) NewSubFileType = Num (Fin 1)"
  "value_of (images pyramid ! 0) ImageHeight = Num (Fin 800)"
  "value_of (images pyramid ! 1) ImageHeight = Num (Fin 400)"
  "value_of (images pyramid ! 2) ImageHeight = Num (Fin 200)"
  "value_of (images pyramid ! 3) ImageHeight = Num (Fin 100)"
  by (auto simp: pyramid_def example_reader_def sized_image_def value_of_def inline_tag_def
        array_tag_def tag_ids)

lemma pyramid_overviews:
  "resolution pyramid 1 = Inr (Num (Fin 2), Num (Fin (- 2)), Num (Fin 0))"
  "resolution pyramid 2 = Inr (Num (Fin 4), Num (Fin (- 4)), Num (Fin 0))"
  "resolution pyramid 3 = Inr (Num (Fin 8), Num (Fin (- 8)), Num (Fin 0))"
  by (simp_all del: One_nat_def
        add: resolution_overview [OF _ _ pyramid_overview_tags(1-3) pyramid_facts(2)]
        pyramid_facts pyramid_overview_tags(4-7))

text \<open>
  C6 as stated fails: in the reader of four images the resolutions are 1, 2, 4 and 8,
  and \<^verbatim>\<open>getImageByResolution(3.5)\<close> returns the image at index 1 (\<open>2 \<le> 3.51\<close>), not
  the one at index 2 (\<open>4 > 3.51\<close>).
\<close>

theorem getImageByResolution_pyramid_counterexample:
  "resolution pyramid 0 = Inr (Num (Fin 1), Num (Fin (- 1)), Num (Fin 0))
   \<and> resolution pyramid 1 = Inr (Num (Fin 2), Num (Fin (- 2)), Num (Fin 0))
   \<and> resolution pyramid 2 = Inr (Num (Fin 4), Num (Fin (- 4)), Num (Fin 0))
   \<and> resolution pyramid 3 = Inr (Num (Fin 8), Num (Fin (- 8)), Num (Fin 0))
   \<and> getImageByResolution_index pyramid (Fin (7 / 2)) = Inr 1"
  by (simp del: One_nat_def add: pyramid_facts(2) pyramid_overviews
        index_of_four [OF pyramid_facts(1,2)] pyramid_facts(3-6) js_sub_def dbl_hundredth
        dbl_halves)

lemma unordered_facts:
  "resolution unordered 0 = Inr (Num (Fin 1), Num (Fin (- 1)), Num (Fin 0))"
  "length (images unordered) = 3"
  "value_of (images unordered ! 0) ImageWidth = Num (Fin 800)"
  "value_of (images unordered ! 1) ImageWidth = Num (Fin 100)"
  "value_of (images unordered ! 2) ImageWidth = Num (Fin 400)"
  "value_of (images unordered ! 0) ImageHeight = Num (Fin 800)"
  "value_of (images unordered ! 1) ImageHeight = Num (Fin 100)"
  "value_of (images unordered ! 2) ImageHeight = Num (Fin 400)"
  "i \<in> {1, 2} \<Longrightarrow> value_of (images unordered ! i) ModelPixelScale = Null"
  "i \<in> {1, 2} \<Longrightarrow> value_of (images unordered ! i) ModelTransformation = Null"
  "i \<in> {1, 2} \<Longrightarrow> value_of (images unordered ! i) NewSubFileType = Num (Fin 1)"
  by (auto simp: unordered_def example_reader_def resolution.simps [of _ 0] sized_image_def
        value_of_def inline_tag_def array_tag_def tag_ids nullish_def Let_def)

lemma unordered_overviews:
  "resolution unordered 1 = Inr (Num (Fin 8), Num (Fin (- 8)), Num (Fin 0))"
  "resolution unordered 2 = Inr (Num (Fin 2), Num (Fin (- 2)), Num (Fin 0))"
  by (simp_all del: One_nat_def
        add: resolution_overview [OF _ _ unordered_facts(9-11) unordered_facts(1)]
        unordered_facts)

lemma unordered_index:
  "getImageByResolution_index unordered (Fin 10) = Inr 2"
proof -
  have i: "images unordered ! Suc (Suc 0) = images unordered ! 2"
    by (simp add: numeral_2_eq_2)
  have n: "length (images unordered) - 1 = Suc (Suc 0)"
    by (simp add: unordered_facts(2))
  have "getImageByResolution_index unordered (Fin 10)
          = Inr (resolution_loop unordered (Fin 800) (Fin 10) (Suc (Suc 0)))"
    unfolding index_loop [OF unordered_facts(1)] n by (simp add: unordered_facts(3))
  also have "resolution_loop unordered (Fin 800) (Fin 10) (Suc (Suc 0)) = Suc (Suc 0)"
    by (simp add: i unordered_facts image_size_def js_sub_def dbl_hundredth Let_def)
  finally show ?thesis by simp
qed

lemma sevenths_doubles:
  "dbl (2010359626072813 / 17592186044416) = Fin (2010359626072813 / 17592186044416)"
  "dbl (800 / 7) = Fin (8042142191733029 / 70368744177664)"
  "dbl (703687441777 / 70368744177664) = Fin (703687441777 / 70368744177664)"
  using dbl_exact [of 2010359626072813 "- 44"]
    dbl_nearest [of 6 "800 / 7" 8042142191733029]
    dbl_exact [of 703687441777 "- 46"]
  by simp_all

lemma sevenths_index:
  "getImageByResolution_index sevenths (Fin (2010359626072813 / 17592186044416)) = Inr 0"
proof -
  have r: "resolution sevenths 0 = Inr (Num (Fin 1), Num (Fin (- 1)), Num (Fin 0))"
    by (simp add: sevenths_def example_reader_def resolution.simps [of _ 0] sized_image_def
          value_of_def inline_tag_def array_tag_def tag_ids nullish_def Let_def)
  have w: "value_of (images sevenths ! Suc 0) ImageWidth = Num (Fin 7)"
    by (simp add: sevenths_def example_reader_def sized_image_def value_of_def inline_tag_def
          tag_ids)
  have w0: "value_of (images sevenths ! 0) ImageWidth = Num (Fin 800)"
    by (simp add: sevenths_def example_reader_def sized_image_def value_of_def inline_tag_def
          tag_ids)
  have n: "length (images sevenths) - 1 = Suc 0"
    by (simp add: sevenths_def example_reader_def)
  have "getImageByResolution_index sevenths (Fin (2010359626072813 / 17592186044416))
          = Inr (resolution_loop sevenths (Fin 800)
                   (Fin (2010359626072813 / 17592186044416)) (Suc 0))"
    unfolding index_loop [OF r] n by (simp add: w0)
  also have "resolution_loop sevenths (Fin 800) (Fin (2010359626072813 / 17592186044416))
               (Suc 0) = 0"
    by (simp add: w image_size_def js_sub_def dbl_hundredth sevenths_doubles Let_def)
  finally show ?thesis .
qed

text \<open>
  C1 as stated fails in three ways.

  For a reader whose only image has no pixel scale and no model transformation,
  \<^verbatim>\<open>getImageByResolution\<close> raises the error of \<^verbatim>\<open>get resolution\<close>.

  In the reader whose overviews are not in order the x-resolutions are 1, 8 and 2.
  \<^verbatim>\<open>getImageByResolution(10)\<close> returns the first match from the last image, the image
  at index 2 of x-resolution 2, and not the coarsest match, the image at index 1 of
  x-resolution 8.

  In the reader of an 800 x 800 base of x-resolution 1 with a 7 x 7 overview, the
  x-resolution of the overview is \<open>800 / 7\<close>. For the double \<open>r = 114.27571428571429\<close>
  it is at most \<open>r + 0.01\<close>, but the source computes the quotient as the double
  114.28571428571429, above \<open>800 / 7\<close>, and its difference to \<open>r\<close> as
  0.010000000000005116, above 0.01: \<^verbatim>\<open>getImageByResolution(r)\<close> returns the image at
  index 0.
\<close>

theorem getImageByResolution_scan_counterexample:
  "length (images (example_reader [] [four_tiles\<lparr>isGeoTagsLoaded := True\<rparr>])) = 1
   \<and> getImageByResolution (example_reader [] [four_tiles\<lparr>isGeoTagsLoaded := True\<rparr>]) (Fin 4)
       = Inl NoGeoTransformation
   \<and> resolution unordered 1 = Inr (Num (Fin 8), Num (Fin (- 8)), Num (Fin 0))
   \<and> resolution unordered 2 = Inr (Num (Fin 2), Num (Fin (- 2)), Num (Fin 0))
   \<and> getImageByResolution_index unordered (Fin 10) = Inr 2
   \<and> dbl (2010359626072813 / 17592186044416) = Fin (2010359626072813 / 17592186044416)
   \<and> (1 * 800 / 7 :: rat) \<le> 2010359626072813 / 17592186044416 + 1 / 100
   \<and> getImageByResolution_index sevenths (Fin (2010359626072813 / 17592186044416)) = Inr 0"
proof -
  have l: "length (images (example_reader [] [four_tiles\<lparr>isGeoTagsLoaded := True\<rparr>])) = 1"
    by (simp add: example_reader_def)
  have g: "getImageByResolution (example_reader [] [four_tiles\<lparr>isGeoTagsLoaded := True\<rparr>]) (Fin 4)
       = Inl NoGeoTransformation"
    by (simp add: getImageByResolution_def getImageByResolution_index_def example_reader_def
          resolution.simps [of _ 0] four_tiles_def with_tag_def tiled_image_def value_of_def
          inline_tag_def array_tag_def tag_ids nullish_def js_eq_def Let_def)
  have e: "(1 * 800 / 7 :: rat) \<le> 2010359626072813 / 17592186044416 + 1 / 100"
    by simp
  show ?thesis
    using l g unordered_overviews unordered_index sevenths_doubles(1) e sevenths_index
    by blast
qed

subsection \<open>Geo keys\<close>

text \<open>
  One turn of the loop of \<^verbatim>\<open>loadGeoTiffTags\<close>, and its end: the loop returns whenever
  its bound is not infinite.
\<close>

lemma geo_loop_done:
  assumes "\<not> js_le (Fin (of_nat i)) (js_mul (ToNumber (js_get geoTags (Fin 3))) (Fin 4))"
  shows "geo_loop tgs geoTags i geo = Some (None, geo)"
  using assms by (subst geo_loop.simps) simp

lemma geo_loop_step:
  assumes "js_le (Fin (of_nat i)) (js_mul (ToNumber (js_get geoTags (Fin 3))) (Fin 4))"
      and "geo_loop tgs geoTags i geo = Some (None, geo')"
  shows "\<exists>geo''. geo_loop tgs geoTags (i + 4) geo'' = Some (None, geo')
            \<and> (\<forall>k. k \<noteq> js_get geoTags (Fin (of_nat i)) \<longrightarrow> geo'' k = geo k)"
  using assms(2)
  by (subst (asm) geo_loop.simps)
     (auto simp: assms(1) Let_def split: if_splits option.splits jsval.splits)

lemma geo_loop_returns:
  assumes "js_mul (ToNumber (js_get geoTags (Fin 3))) (Fin 4) \<noteq> PosInf"
  shows "geo_loop tgs geoTags i geo \<noteq> None"
proof (cases "js_mul (ToNumber (js_get geoTags (Fin 3))) (Fin 4)")
  case (Fin b)
  show ?thesis
  proof (induction "nat \<lceil>b\<rceil> + 1 - i" arbitrary: i geo rule: less_induct)
    case less
    show ?case
    proof (cases "of_nat i \<le> b")
      case False
      then show ?thesis by (simp add: geo_loop_done Fin)
    next
      case True
      then have "int i \<le> \<lceil>b\<rceil>" by (metis ceiling_mono ceiling_of_nat)
      then have d: "nat \<lceil>b\<rceil> + 1 - (i + 4) < nat \<lceil>b\<rceil> + 1 - i" by linarith
      have ih: "\<exists>a b. geo_loop tgs geoTags (i + 4) g = Some (a, b)" for g
        using less [OF d, of g] by auto
      show ?thesis
        by (subst geo_loop.simps)
           (auto simp: Fin Let_def ih split: option.splits jsval.splits)
    qed
  qed
next
  case PosInf
  with assms show ?thesis by simp
next
  case NegInf
  then show ?thesis by (simp add: geo_loop_done)
next
  case NaN
  then show ?thesis by (simp add: geo_loop_done)
qed


text \<open>
  A run of the loop that raises nothing leaves a key as it was when no entry from \<open>i\<close>
  on has that key, and leaves at a key stored in a string-valued tag the slice
  \<open>[offset, offset + count - 1)\<close> of the string, trimmed, when no later entry has the
  same key.
\<close>

lemma geo_loop_keeps:
  assumes fin: "js_mul (ToNumber (js_get geoTags (Fin 3))) (Fin 4) = Fin b"
      and run: "geo_loop tgs geoTags i geo = Some (None, geo')"
      and no: "\<forall>t. of_nat (i + 4 * t) \<le> b \<longrightarrow> js_get geoTags (Fin (of_nat (i + 4 * t))) \<noteq> k"
  shows "geo' k = geo k"
  using run no
proof (induction "nat \<lceil>b\<rceil> + 1 - i" arbitrary: i geo rule: less_induct)
  case less
  show ?case
  proof (cases "of_nat i \<le> b")
    case False
    with less.prems(1) show ?thesis by (simp add: geo_loop_done fin)
  next
    case True
    then have "int i \<le> \<lceil>b\<rceil>" by (metis ceiling_mono ceiling_of_nat)
    then have d: "nat \<lceil>b\<rceil> + 1 - (i + 4) < nat \<lceil>b\<rceil> + 1 - i" by linarith
    from True have c: "js_le (Fin (of_nat i)) (js_mul (ToNumber (js_get geoTags (Fin 3))) (Fin 4))"
      by (simp add: fin)
    from geo_loop_step [OF c less.prems(1)] obtain geo''
      where s: "geo_loop tgs geoTags (i + 4) geo'' = Some (None, geo')"
        and e: "\<forall>k. k \<noteq> js_get geoTags (Fin (of_nat i)) \<longrightarrow> geo'' k = geo k"
      by blast
    from less.prems(2) [rule_format, of 0] True
    have k: "k \<noteq> js_get geoTags (Fin (of_nat i))" by auto
    have n: "\<forall>t. of_nat (i + 4 + 4 * t) \<le> b
               \<longrightarrow> js_get geoTags (Fin (of_nat (i + 4 + 4 * t))) \<noteq> k"
    proof (intro allI impI)
      fix t assume "(of_nat (i + 4 + 4 * t) :: rat) \<le> b"
      then show "js_get geoTags (Fin (of_nat (i + 4 + 4 * t))) \<noteq> k"
        using less.prems(2) [rule_format, of "Suc t"] by (simp add: add.assoc)
    qed
    have "geo' k = geo'' k" by (rule less.hyps [OF d s n])
    with e k show ?thesis by simp
  qed
qed

lemma geo_loop_string_step:
  assumes "js_le (Fin (of_nat i)) (js_mul (ToNumber (js_get geoTags (Fin 3))) (Fin 4))"
      and "js_get geoTags (Fin (of_nat (i + 1))) = Num l" "\<not> js_eq l (Fin 0)"
      and "tgs l = Some a" "tag_value a = Str s"
  shows "geo_loop tgs geoTags i geo
           = geo_loop tgs geoTags (i + 4)
               (geo(js_get geoTags (Fin (of_nat i)) \<mapsto>
                  Str (js_trim (js_slice s (ToNumber (js_get geoTags (Fin (of_nat (i + 3)))))
                        (js_sub (js_add (ToNumber (js_get geoTags (Fin (of_nat (i + 3)))))
                                        (ToNumber (js_get geoTags (Fin (of_nat (i + 2))))))
                                (Fin 1))))))"
  using assms by (subst geo_loop.simps) (simp add: Let_def nullish_def)

lemma geo_loop_string_key:
  assumes fin: "js_mul (ToNumber (js_get geoTags (Fin 3))) (Fin 4) = Fin b"
      and run: "geo_loop tgs geoTags i geo = Some (None, geo')"
      and pos: "of_nat (i + 4 * t) \<le> b"
      and key: "js_get geoTags (Fin (of_nat (i + 4 * t))) = k"
      and loc: "js_get geoTags (Fin (of_nat (i + 4 * t + 1))) = Num l" "\<not> js_eq l (Fin 0)"
      and tag: "tgs l = Some a" "tag_value a = Str s"
      and cnt: "js_get geoTags (Fin (of_nat (i + 4 * t + 2))) = c"
      and off: "js_get geoTags (Fin (of_nat (i + 4 * t + 3))) = off"
      and last: "\<forall>u. of_nat (i + 4 * t + 4 + 4 * u) \<le> b
                  \<longrightarrow> js_get geoTags (Fin (of_nat (i + 4 * t + 4 + 4 * u))) \<noteq> k"
  shows "geo' k = Some (Str (js_trim (js_slice s (ToNumber off)
                    (js_sub (js_add (ToNumber off) (ToNumber c)) (Fin 1)))))"
  using run pos key loc(1) cnt off last
proof (induction t arbitrary: i geo)
  case 0
  from 0(2) have c: "js_le (Fin (of_nat i)) (js_mul (ToNumber (js_get geoTags (Fin 3))) (Fin 4))"
    by (simp add: fin)
  have l: "js_get geoTags (Fin (of_nat (i + 1))) = Num l" using 0(4) by simp
  note st = geo_loop_string_step [where tgs = tgs and geo = geo, OF c l loc(2) tag]
  from 0(1) have r: "geo_loop tgs geoTags (i + 4)
       (geo(js_get geoTags (Fin (of_nat i)) \<mapsto>
          Str (js_trim (js_slice s (ToNumber (js_get geoTags (Fin (of_nat (i + 3)))))
                (js_sub (js_add (ToNumber (js_get geoTags (Fin (of_nat (i + 3)))))
                                (ToNumber (js_get geoTags (Fin (of_nat (i + 2))))))
                        (Fin 1)))))) = Some (None, geo')"
    by (simp only: st)
  have n: "\<forall>u. of_nat (i + 4 + 4 * u) \<le> b
             \<longrightarrow> js_get geoTags (Fin (of_nat (i + 4 + 4 * u))) \<noteq> k"
    using 0(7) by simp
  from geo_loop_keeps [OF fin r n] 0(3) 0(5) 0(6) show ?case by simp
next
  case (Suc t)
  have "(of_nat i :: rat) \<le> of_nat (i + 4 * Suc t)" by simp
  with Suc.prems(2) have "of_nat i \<le> b" by linarith
  then have c: "js_le (Fin (of_nat i)) (js_mul (ToNumber (js_get geoTags (Fin 3))) (Fin 4))"
    by (simp add: fin)
  from geo_loop_step [OF c Suc.prems(1)] obtain geo''
    where s: "geo_loop tgs geoTags (i + 4) geo'' = Some (None, geo')"
    by blast
  have e: "i + 4 * Suc t = i + 4 + 4 * t" by simp
  show ?case
    by (rule Suc.IH [OF s])
       (use Suc.prems(2-7) in \<open>simp_all only: e\<close>)
qed


lemma js_get_Arr_nat:
  "js_get (Arr g) (Fin (of_nat j)) = (if j < length g then Num (g ! j) else Undefined)"
  by simp

lemma loadGeoTiffTags_loaded_array:
  assumes "\<not> isGeoTagsLoaded img" "tags img GeoKeyDirectory = Some d" "tag_value d = Arr g"
  shows "loadGeoTiffTags ext tiff img =
           (case geo_loop (tags img) (Arr g) 4 (tagsGeo img) of
              None \<Rightarrow> None
            | Some (err, geo) \<Rightarrow> Some (err, img\<lparr>isGeoTagsLoaded := True, tagsGeo := geo\<rparr>))"
  using assms by (simp add: loadGeoTiffTags_def nullish_def Let_def)

text \<open>
  C4 (as amended). An image whose geo keys are not loaded yet, with a loaded
  GeoKeyDirectory of \<open>n\<close> keys that holds the tuple (1026, 34737, 11, 0) as its entry
  \<open>p\<close>, the last one for key 1026, and with the loaded GeoAsciiParams
  \<^verbatim>\<open>WGS 84|foo|\<close>: \<^verbatim>\<open>loadGeoTiffTags\<close> returns, and when it returns without an error
  (no other key refers to a tag that is not a string),
  \<^verbatim>\<open>valueGeo(GTCitationGeoKey)\<close> is \<^verbatim>\<open>WGS 84|foo\<close>: the first \<open>11 - 1 = 10\<close>
  characters, which end before the last \<^verbatim>\<open>|\<close> and keep the one inside.
\<close>

theorem loadGeoTiffTags_citation:
  assumes nl: "\<not> isGeoTagsLoaded img"
      and d: "tags img GeoKeyDirectory = Some d" "tag_value d = Arr g"
      and a: "tags img GeoAsciiParams = Some a" "tag_value a = Str ''WGS 84|foo|''"
      and n: "3 < length g" "g ! 3 = Fin (of_nat n)"
      and p: "1 \<le> p" "p \<le> n" "4 * p + 3 < length g"
      and e: "g ! (4 * p) = Fin 1026" "g ! (4 * p + 1) = Fin 34737"
             "g ! (4 * p + 2) = Fin 11" "g ! (4 * p + 3) = Fin 0"
      and last: "\<forall>q. p < q \<and> q \<le> n \<and> 4 * q < length g \<longrightarrow> g ! (4 * q) \<noteq> Fin 1026"
  shows "loadGeoTiffTags ext tiff img \<noteq> None
         \<and> (\<forall>img'. loadGeoTiffTags ext tiff img = Some (None, img')
               \<longrightarrow> valueGeo img' GTCitationGeoKey = Inr (Str ''WGS 84|foo''))"
proof (intro conjI allI impI)
  note L = loadGeoTiffTags_loaded_array [OF nl d, of ext tiff]
  have three: "js_get (Arr g) (Fin 3) = Num (Fin (of_nat n))"
    using js_get_Arr_nat [of g 3] n by simp
  have fin: "js_mul (ToNumber (js_get (Arr g) (Fin 3))) (Fin 4) = Fin (of_nat (4 * n))"
    by (simp only: three ToNumber.simps js_mul.simps) (simp add: mult.commute)
  have "js_mul (ToNumber (js_get (Arr g) (Fin 3))) (Fin 4) \<noteq> PosInf"
    unfolding fin by simp
  then have "geo_loop (tags img) (Arr g) 4 (tagsGeo img) \<noteq> None"
    by (rule geo_loop_returns)
  then show "loadGeoTiffTags ext tiff img \<noteq> None"
    by (auto simp: L)
  fix img'
  assume run: "loadGeoTiffTags ext tiff img = Some (None, img')"
  then obtain geo where g: "geo_loop (tags img) (Arr g) 4 (tagsGeo img) = Some (None, geo)"
    and i: "img' = img\<lparr>isGeoTagsLoaded := True, tagsGeo := geo\<rparr>"
    by (auto simp: L split: option.splits)
  define t where "t = p - 1"
  have pt: "4 + 4 * t = 4 * p" using p(1) by (simp add: t_def)
  have pos: "(of_nat (4 + 4 * t) :: rat) \<le> of_nat (4 * n)"
    unfolding pt using p(2) by (simp only: of_nat_le_iff)
  have k: "js_get (Arr g) (Fin (of_nat (4 + 4 * t))) = Num (Fin 1026)"
    unfolding pt js_get_Arr_nat using p(3) e(1) by simp
  have l: "js_get (Arr g) (Fin (of_nat (4 + 4 * t + 1))) = Num GeoAsciiParams"
    unfolding pt js_get_Arr_nat using p(3) e(2) by (simp add: GeoAsciiParams_def)
  have c: "js_get (Arr g) (Fin (of_nat (4 + 4 * t + 2))) = Num (Fin 11)"
    unfolding pt js_get_Arr_nat using p(3) e(3) by simp
  have o: "js_get (Arr g) (Fin (of_nat (4 + 4 * t + 3))) = Num (Fin 0)"
    unfolding pt js_get_Arr_nat using p(3) e(4) by simp
  have nz: "\<not> js_eq GeoAsciiParams (Fin 0)"
    by (simp add: js_eq_def GeoAsciiParams_def)
  have la: "\<forall>u. of_nat (4 + 4 * t + 4 + 4 * u) \<le> (of_nat (4 * n) :: rat)
              \<longrightarrow> js_get (Arr g) (Fin (of_nat (4 + 4 * t + 4 + 4 * u))) \<noteq> Num (Fin 1026)"
  proof (intro allI impI)
    fix u
    assume "(of_nat (4 + 4 * t + 4 + 4 * u) :: rat) \<le> of_nat (4 * n)"
    then have "4 + 4 * t + 4 + 4 * u \<le> 4 * n" by (simp only: of_nat_le_iff)
    then have q: "p < p + 1 + u" "p + 1 + u \<le> n" unfolding pt by simp_all
    have r: "4 + 4 * t + 4 + 4 * u = 4 * (p + 1 + u)" unfolding pt by simp
    show "js_get (Arr g) (Fin (of_nat (4 + 4 * t + 4 + 4 * u))) \<noteq> Num (Fin 1026)"
      unfolding r js_get_Arr_nat using last [rule_format, of "p + 1 + u"] q by simp
  qed
  have "geo (Num (Fin 1026)) = Some (Str (js_trim (js_slice ''WGS 84|foo|'' (ToNumber (Num (Fin 0)))
           (js_sub (js_add (ToNumber (Num (Fin 0))) (ToNumber (Num (Fin 11)))) (Fin 1)))))"
    by (rule geo_loop_string_key [where tgs = "tags img", OF fin g pos k l nz a c o la])
  moreover have "js_trim (js_slice ''WGS 84|foo|'' (Fin 0) (Fin 10)) = ''WGS 84|foo''"
    by code_simp
  ultimately show "valueGeo img' GTCitationGeoKey = Inr (Str ''WGS 84|foo'')"
    by (simp add: valueGeo_def i GTCitationGeoKey_def js_sub_def)
qed


text \<open>The theorem at the image whose directory holds that one key.\<close>

lemma geo_image_facts:
  "\<not> isGeoTagsLoaded geo_image"
  "tags geo_image GeoKeyDirectory =
     Some \<lparr>tag_type = Lazy, tag_id = GeoKeyDirectory, tag_count = 8,
           tag_value = Arr [Fin 1, Fin 1, Fin 0, Fin 1, Fin 1026, Fin 34737, Fin 11, Fin 0],
           isLoaded = False\<rparr>"
  "tags geo_image GeoAsciiParams =
     Some \<lparr>tag_type = Lazy, tag_id = GeoAsciiParams, tag_count = 12,
           tag_value = Str ''WGS 84|foo|'', isLoaded = False\<rparr>"
  by (simp_all add: geo_image_def sized_image_def tag_ids)

theorem loadGeoTiffTags_citation_witness:
  "\<exists>img'. loadGeoTiffTags example_ext (example_reader [] [geo_image]) geo_image
              = Some (None, img')
          \<and> valueGeo img' GTCitationGeoKey = Inr (Str ''WGS 84|foo'')"
proof -
  let ?g = "[Fin 1, Fin 1, Fin 0, Fin 1, Fin 1026, Fin 34737, Fin 11, Fin 0]"
  have t: "loadGeoTiffTags example_ext (example_reader [] [geo_image]) geo_image \<noteq> None
         \<and> (\<forall>img'. loadGeoTiffTags example_ext (example_reader [] [geo_image]) geo_image
                      = Some (None, img')
               \<longrightarrow> valueGeo img' GTCitationGeoKey = Inr (Str ''WGS 84|foo''))"
    by (rule loadGeoTiffTags_citation [OF geo_image_facts(1,2) _ geo_image_facts(3),
          where g = ?g and n = 1 and p = 1]) simp_all
  have "map_option fst (loadGeoTiffTags example_ext (example_reader [] [geo_image]) geo_image)
          = Some None"
    by code_simp
  then obtain img' where
    "loadGeoTiffTags example_ext (example_reader [] [geo_image]) geo_image = Some (None, img')"
    by auto
  with t show ?thesis by blast
qed

text \<open>
  C4 as stated fails: for the image whose directory holds the one key
  (1026, 34737, 11, 0), \<^verbatim>\<open>valueGeo(GTCitationGeoKey)\<close> is \<^verbatim>\<open>WGS 84|foo\<close> after
  \<^verbatim>\<open>loadGeoTiffTags\<close>, not \<^verbatim>\<open>WGS 84\<close>.
\<close>

theorem loadGeoTiffTags_citation_counterexample:
  "map_option (\<lambda>(err, img'). (err, valueGeo img' GTCitationGeoKey))
     (loadGeoTiffTags example_ext (example_reader [] [geo_image]) geo_image)
     = Some (None, Inr (Str ''WGS 84|foo''))
   \<and> map_option (\<lambda>(err, img'). (err, valueGeo img' GTCitationGeoKey))
     (loadGeoTiffTags example_ext (example_reader [] [geo_image]) geo_image)
     \<noteq> Some (None, Inr (Str ''WGS 84''))"
  by code_simp

end
